theory Spec2Isabelle
  imports Main "HOL-Library.Sublist"
begin

section \<open>Python strings\<close>

text \<open>
  Python \<open>str\<close> values are modelled as \<open>string\<close>. \<open>s.startswith(p)\<close>, \<open>s.endswith(p)\<close>
  and \<open>x in s\<close> are the prefix, suffix and contiguous-sublist tests. \<open>s.split(sep)\<close> and
  \<open>s.count(sep)\<close> are only used by the code with a one-character separator. The result of
  \<open>split\<close> is never empty, so the first branch of the \<open>case\<close> in \<open>split_chr\<close> is never taken.
\<close>

definition startswith :: "string \<Rightarrow> string \<Rightarrow> bool" where
  "startswith s p = prefix p s"

definition endswith :: "string \<Rightarrow> string \<Rightarrow> bool" where
  "endswith s p = suffix p s"

definition str_in :: "string \<Rightarrow> string \<Rightarrow> bool" where
  "str_in x s = sublist x s"

definition count_chr :: "char \<Rightarrow> string \<Rightarrow> nat" where
  "count_chr c s = length (filter (\<lambda>x. x = c) s)"

text \<open>\<open>s.rfind(c)\<close>: the last index of \<open>c\<close>, or \<open>-1\<close>.\<close>

fun rfind_from :: "char \<Rightarrow> string \<Rightarrow> nat \<Rightarrow> int \<Rightarrow> int" where
  "rfind_from c [] i found = found"
| "rfind_from c (x # xs) i found = rfind_from c xs (Suc i) (if x = c then int i else found)"

definition rfind_chr :: "char \<Rightarrow> string \<Rightarrow> int" where
  "rfind_chr c s = rfind_from c s 0 (- 1)"

definition rstrip_chr :: "char \<Rightarrow> string \<Rightarrow> string" where
  "rstrip_chr c s = rev (dropWhile (\<lambda>x. x = c) (rev s))"

fun split_chr :: "char \<Rightarrow> string \<Rightarrow> string list" where
  "split_chr sep [] = [[]]"
| "split_chr sep (c # cs) =
     (case split_chr sep cs of
        [] \<Rightarrow> []
      | w # ws \<Rightarrow> if c = sep then [] # w # ws else (c # w) # ws)"

text \<open>
  \<open>s.replace(old, new)\<close> scans from the left and replaces every non-overlapping occurrence;
  with an empty \<open>old\<close> Python inserts \<open>new\<close> around every character.
\<close>

function replace_scan :: "string \<Rightarrow> string \<Rightarrow> string \<Rightarrow> string" where
  "replace_scan old new [] = []"
| "replace_scan old new (c # cs) =
     (if old \<noteq> [] \<and> prefix old (c # cs)
      then new @ replace_scan old new (drop (length old) (c # cs))
      else c # replace_scan old new cs)"
  by pat_completeness auto
termination
  by (relation "measure (\<lambda>(old, new, s). length s)") auto

definition str_replace :: "string \<Rightarrow> string \<Rightarrow> string \<Rightarrow> string" where
  "str_replace s old new =
     (if old = [] then new @ concat (map (\<lambda>c. c # new) s) else replace_scan old new s)"

section \<open>Exceptions\<close>

text \<open>
  Every \<open>raise\<close> of the source is a value. The \<open>LookupError\<close>s of \<open>modules_repo.py\<close> are
  told apart by the place that raises them; the interpolated values of the message are
  the constructor's arguments.
\<close>

datatype os_errno = ENOENT | ENOTDIR | ENOTEMPTY | EEXIST | EISDIR | EINVAL

datatype lookup_msg =
    No_remote_url
  | Failed_to_clone string
  | Branch_not_found "string option" string
  | No_modules_directory string "string option" bool
  | Repository_or_branch_not_found string "string option"
  | Could_not_fetch_tree string "string option" int
  | Found_no_modules string
  | Could_not_fetch_file string int

datatype error =
    LookupError lookup_msg
  | IndexError
  | ValueError
  | AttributeError
  | StopIteration
  | AssertionError
  | GitCommandError
  | InvalidGitRepositoryError
  | OSError os_errno
  | ShutilError
  | PlainException string

section \<open>The remote file tree: \<open>ModulesRepo.get_modules_file_tree\<close>\<close>

record tree_entry =
  path :: string
  type :: string
  url :: string

text \<open>The decoded answer of \<open>gh_api.get\<close>: the status code and the JSON body.\<close>

record tree_response =
  status_code :: int
  truncated :: bool
  tree :: "tree_entry list"

text \<open>
  A \<open>ModulesRepo\<close> object. An attribute that \<open>__init__\<close> has not assigned yet is \<open>None\<close>;
  \<open>branch\<close> is assigned first and may hold Python's \<open>None\<close>. A \<open>git.Repo\<close> is known by its
  working directory.
\<close>

record modules_repo =
  fullname :: string
  branch :: "string option"
  owner :: "string option"
  name :: "string option"
  local_dir :: "string option"
  repo :: "string list option"
  modules_file_tree :: "tree_entry list"
  modules_avail_module_names :: "string list"

definition is_module_main :: "string \<Rightarrow> bool" where
  "is_module_main p \<longleftrightarrow>
     startswith p ''modules/'' \<and> endswith p ''/main.nf'' \<and> \<not> str_in ''/test/'' p"

definition module_name_of :: "string \<Rightarrow> string" where
  "module_name_of p = str_replace (str_replace p ''modules/'' '''') ''/main.nf'' ''''"

text \<open>The \<open>for f in result["tree"]\<close> loop, appending to the list of names.\<close>

fun collect_names :: "string list \<Rightarrow> tree_entry list \<Rightarrow> string list" where
  "collect_names names [] = names"
| "collect_names names (f # fs) =
     (if is_module_main (path f)
      then collect_names (names @ [module_name_of (path f)]) fs
      else collect_names names fs)"

definition get_modules_file_tree :: "tree_response \<Rightarrow> modules_repo \<Rightarrow> error + modules_repo" where
  "get_modules_file_tree r self =
     (if status_code r = 404
        then Inl (LookupError (Repository_or_branch_not_found (fullname self) (branch self)))
      else if status_code r \<noteq> 200
        then Inl (LookupError (Could_not_fetch_tree (fullname self) (branch self) (status_code r)))
      else if truncated r then Inl AssertionError
      else
        let names = collect_names (modules_avail_module_names self) (tree r)
        in if length names = 0 then Inl (LookupError (Found_no_modules (fullname self)))
           else Inr (self\<lparr>modules_file_tree := tree r, modules_avail_module_names := names\<rparr>))"

text \<open>
  A tree path of the plain shape \<open>modules/<name>/main.nf\<close>: the prefix \<open>modules/\<close> occurs
  only at the start and the suffix \<open>/main.nf\<close> only at the end.
\<close>

definition plain_entry_path :: "string \<Rightarrow> bool" where
  "plain_entry_path p \<longleftrightarrow>
     16 \<le> length p \<and> \<not> sublist ''modules/'' (tl p) \<and> \<not> sublist ''/main.nf'' (butlast p)"

definition entry :: "string \<Rightarrow> tree_entry" where
  "entry p = \<lparr>path = p, type = ''blob'', url = ''''\<rparr>"

definition fresh_listing :: modules_repo where
  "fresh_listing = \<lparr>fullname = ''nf-core/modules'', branch = Some ''master'',
     owner = Some ''nf-core'', name = Some ''modules'', local_dir = None, repo = None,
     modules_file_tree = [], modules_avail_module_names = []\<rparr>"

definition ok_response :: "string list \<Rightarrow> tree_response" where
  "ok_response ps = \<lparr>status_code = 200, truncated = False, tree = map entry ps\<rparr>"

definition test_scenario :: tree_response where
  "test_scenario = ok_response [''modules/fastqc/main.nf'', ''modules/fastqc/meta.yml'',
     ''modules/fastqc/test/main.nf'']"

definition tests_scenario :: tree_response where
  "tests_scenario = ok_response [''modules/fastqc/main.nf'', ''modules/fastqc/meta.yml'',
     ''modules/fastqc/tests/main.nf'']"

section \<open>Paths and the file system\<close>

text \<open>
  The file system is a table from absolute paths, as lists of segments, to nodes; the root
  \<open>[]\<close> is always a directory. A path string is resolved the way the operating system does
  it: against the working directory unless it starts with a slash, dropping empty and \<open>.\<close>
  segments and stepping up at \<open>..\<close>. The step up is taken on the text of the path: where the
  kernel would refuse a path that steps out of a missing directory, the resolution here
  still answers. Symbolic links and permissions are left out. A table is
  meant to hold each path once and, with a path, the directories above it; a theorem that
  needs part of this says so.
\<close>

type_synonym fspath = "string list"

datatype node = Dir | File string

type_synonym filesystem = "(fspath \<times> node) list"

definition lookup :: "filesystem \<Rightarrow> fspath \<Rightarrow> node option" where
  "lookup fs p = (if p = [] then Some Dir else map_of fs p)"

definition is_dir :: "filesystem \<Rightarrow> fspath \<Rightarrow> bool" where
  "is_dir fs p \<longleftrightarrow> lookup fs p = Some Dir"

definition is_file :: "filesystem \<Rightarrow> fspath \<Rightarrow> bool" where
  "is_file fs p \<longleftrightarrow> (case lookup fs p of Some (File _) \<Rightarrow> True | _ \<Rightarrow> False)"

definition resolve_step :: "string \<Rightarrow> fspath \<Rightarrow> fspath" where
  "resolve_step seg acc =
     (if seg = [] \<or> seg = ''.'' then acc
      else if seg = ''..'' then butlast acc
      else acc @ [seg])"

definition os_resolve :: "fspath \<Rightarrow> string \<Rightarrow> fspath" where
  "os_resolve cwd p =
     fold resolve_step (split_chr CHR ''/'' p) (if startswith p ''/'' then [] else cwd)"

text \<open>\<open>posixpath.dirname\<close>, \<open>posixpath.join\<close> and the root of \<open>posixpath.splitext\<close>.\<close>

definition dirname :: "string \<Rightarrow> string" where
  "dirname p =
     (let i = nat (rfind_chr CHR ''/'' p + 1);
          head = take i p
      in if head \<noteq> [] \<and> head \<noteq> replicate (length head) CHR ''/''
         then rstrip_chr CHR ''/'' head else head)"

definition path_join :: "string \<Rightarrow> string \<Rightarrow> string" where
  "path_join a b =
     (if startswith b ''/'' then b
      else if a = [] \<or> endswith a ''/'' then a @ b
      else a @ ''/'' @ b)"

definition splitext_root :: "string \<Rightarrow> string" where
  "splitext_root p =
     (let sepIndex = rfind_chr CHR ''/'' p;
          dotIndex = rfind_chr CHR ''.'' p
      in if dotIndex > sepIndex \<and>
            list_ex (\<lambda>c. c \<noteq> CHR ''.'')
              (take (nat dotIndex - nat (sepIndex + 1)) (drop (nat (sepIndex + 1)) p))
         then take (nat dotIndex) p else p)"

text \<open>The children of a directory and the kernel's operations on the table.\<close>

definition child_names :: "filesystem \<Rightarrow> fspath \<Rightarrow> (node \<Rightarrow> bool) \<Rightarrow> string list" where
  "child_names fs d keep =
     map (\<lambda>(q, n). last q) (filter (\<lambda>(q, n). q \<noteq> [] \<and> butlast q = d \<and> keep n) fs)"

definition mkdirs :: "fspath \<Rightarrow> filesystem \<Rightarrow> filesystem" where
  "mkdirs p fs = fs @ map (\<lambda>q. (q, Dir)) (filter (\<lambda>q. q \<noteq> [] \<and> map_of fs q = None) (prefixes p))"

definition remove_tree :: "fspath \<Rightarrow> filesystem \<Rightarrow> filesystem" where
  "remove_tree p fs = filter (\<lambda>(q, n). \<not> prefix p q) fs"

definition has_children :: "filesystem \<Rightarrow> fspath \<Rightarrow> bool" where
  "has_children fs p \<longleftrightarrow> list_ex (\<lambda>(q, n). strict_prefix p q) fs"

text \<open>
  What the kernel answers for a path that is not there: \<open>ENOTDIR\<close> when a regular file stands
  where the path needs a directory, \<open>ENOENT\<close> otherwise.
\<close>

definition missing_errno :: "filesystem \<Rightarrow> fspath \<Rightarrow> os_errno" where
  "missing_errno fs p = (if list_ex (is_file fs) (prefixes (butlast p)) then ENOTDIR else ENOENT)"

definition makedirs_at :: "fspath \<Rightarrow> filesystem \<Rightarrow> error + filesystem" where
  "makedirs_at p fs =
     (if lookup fs p \<noteq> None then Inl (OSError EEXIST)
      else if list_ex (is_file fs) (prefixes p) then Inl (OSError ENOTDIR)
      else Inr (mkdirs p fs))"

definition rmtree_at :: "fspath \<Rightarrow> filesystem \<Rightarrow> error + filesystem" where
  "rmtree_at p fs =
     (case lookup fs p of
        None \<Rightarrow> Inl (OSError (missing_errno fs p))
      | Some (File c) \<Rightarrow> Inl (OSError ENOTDIR)
      | Some Dir \<Rightarrow> if p = [] then Inl (OSError EINVAL) else Inr (remove_tree p fs))"

definition rmdir_at :: "fspath \<Rightarrow> filesystem \<Rightarrow> error + filesystem" where
  "rmdir_at p fs =
     (case lookup fs p of
        None \<Rightarrow> Inl (OSError (missing_errno fs p))
      | Some (File c) \<Rightarrow> Inl (OSError ENOTDIR)
      | Some Dir \<Rightarrow>
          if p = [] then Inl (OSError EINVAL)
          else if has_children fs p then Inl (OSError ENOTEMPTY)
          else Inr (remove_tree p fs))"

text \<open>
  \<open>shutil.move(src, dst)\<close>, in the order of its tests. A directory \<open>dst\<close> that is \<open>src\<close> itself is
  renamed onto itself, which changes nothing; any other directory \<open>dst\<close> receives \<open>src\<close> under
  its own name, which must be free there (\<open>shutil.Error\<close>). Then \<open>os.rename\<close> is tried, and where
  it fails the source is copied and removed: a missing source stays an error of the kernel; a
  directory is not moved into itself (\<open>shutil.Error\<close>), and \<open>copytree\<close> makes the target with its
  parents, so the target must not exist and no regular file may stand on the way; a file
  replaces a file at the target and needs the directory of the target. The root is never a
  source here: every caller hands over a path of at least one segment; for \<open>/\<close> the answer of
  \<open>shutil\<close> is \<open>shutil.Error\<close> unless the destination is \<open>/\<close> too.
\<close>

definition reroot :: "fspath \<Rightarrow> fspath \<Rightarrow> filesystem \<Rightarrow> filesystem" where
  "reroot src dst fs =
     map (\<lambda>(q, n). if prefix src q then (dst @ drop (length src) q, n) else (q, n)) fs"

definition move_at :: "fspath \<Rightarrow> fspath \<Rightarrow> filesystem \<Rightarrow> error + filesystem" where
  "move_at src dst fs =
     (if src = [] then Inl ShutilError
      else if is_dir fs dst \<and> dst = src then Inr fs
      else
        let real_dst = (if is_dir fs dst then dst @ [last src] else dst)
        in if is_dir fs dst \<and> lookup fs real_dst \<noteq> None then Inl ShutilError
           else if lookup fs src = None then Inl (OSError (missing_errno fs src))
           else if dst = src then Inr fs
           else if is_dir fs src then
             (if prefix src real_dst then Inl ShutilError
              else if lookup fs real_dst \<noteq> None then Inl (OSError EEXIST)
              else if list_ex (is_file fs) (prefixes real_dst) then Inl (OSError ENOTDIR)
              else Inr (reroot src real_dst (mkdirs (butlast real_dst) fs)))
           else
             (if list_ex (is_file fs) (prefixes (butlast real_dst)) then Inl (OSError ENOTDIR)
              else if \<not> is_dir fs (butlast real_dst) then Inl (OSError ENOENT)
              else Inr (reroot src real_dst (remove_tree real_dst fs))))"

text \<open>
  \<open>os.walk(top)\<close>: one triple for \<open>top\<close> and for every directory below it, with the names of
  its sub-directories and of its files; nothing when \<open>top\<close> is not a directory.
\<close>

definition os_walk :: "filesystem \<Rightarrow> fspath \<Rightarrow> (fspath \<times> string list \<times> string list) list" where
  "os_walk fs root =
     (if is_dir fs root
      then map (\<lambda>d. (d, child_names fs d (\<lambda>n. n = Dir), child_names fs d (\<lambda>n. n \<noteq> Dir)))
             (root # map fst (filter (\<lambda>(q, n). n = Dir \<and> strict_prefix root q) fs))
      else [])"

text \<open>\<open>PurePath.relative_to\<close> on the parts of two paths.\<close>

definition relative_to :: "fspath \<Rightarrow> fspath \<Rightarrow> error + fspath" where
  "relative_to p base = (if prefix base p then Inr (drop (length base) p) else Inl ValueError)"

section \<open>The world: file system, working directory, log and calls\<close>

datatype level = Debug | Info | Error

datatype log_msg =
    Parent_directory_not_empty string
  | Deleted_orphan_tool_directory string
  | Successfully_removed_module string
  | Could_not_remove_module error
  | Modules_structure_outdated
  | Updating string
  | Moved fspath fspath

datatype event =
    Log level log_msg
  | Call_setup_local_repo string "string option" bool
  | Call_check_up_to_date string

text \<open>
  What git knows: a remote repository has the branch its \<open>HEAD\<close> names and a tree for each
  branch, with paths relative to the work tree; a clone remembers its origin, the branches
  and the \<open>origin/HEAD\<close> it last fetched, and its active branch. A remote that is missing from
  \<open>remotes\<close> cannot be reached.
\<close>

record remote_repo =
  head_branch :: string
  branches :: "(string \<times> filesystem) list"

record clone =
  origin :: string
  origin_head :: string
  known_branches :: "(string \<times> filesystem) list"
  active_branch :: string

record world =
  fsys :: filesystem
  cwd :: fspath
  trace :: "event list"
  remotes :: "(string \<times> remote_repo) list"
  clones :: "(fspath \<times> clone) list"

definition emit :: "event \<Rightarrow> world \<Rightarrow> world" where
  "emit e w = w\<lparr>trace := trace w @ [e]\<rparr>"

text \<open>The \<open>os\<close> and \<open>shutil\<close> calls on path strings; an empty string names no file.\<close>

definition os_path_exists :: "world \<Rightarrow> string \<Rightarrow> bool" where
  "os_path_exists w s \<longleftrightarrow> s \<noteq> [] \<and> lookup (fsys w) (os_resolve (cwd w) s) \<noteq> None"

definition on_fs :: "(filesystem \<Rightarrow> error + filesystem) \<Rightarrow> world \<Rightarrow> error + world" where
  "on_fs f w = (case f (fsys w) of Inl e \<Rightarrow> Inl e | Inr fs' \<Rightarrow> Inr (w\<lparr>fsys := fs'\<rparr>))"

definition os_makedirs :: "string \<Rightarrow> world \<Rightarrow> error + world" where
  "os_makedirs s w =
     (if s = [] then Inl (OSError ENOENT) else on_fs (makedirs_at (os_resolve (cwd w) s)) w)"

definition shutil_rmtree :: "string \<Rightarrow> world \<Rightarrow> error + world" where
  "shutil_rmtree s w =
     (if s = [] then Inl (OSError ENOENT) else on_fs (rmtree_at (os_resolve (cwd w) s)) w)"

definition os_rmdir :: "string \<Rightarrow> world \<Rightarrow> error + world" where
  "os_rmdir s w =
     (if s = [] then Inl (OSError ENOENT) else on_fs (rmdir_at (os_resolve (cwd w) s)) w)"

text \<open>\<open>except OSError\<close> also catches \<open>shutil.Error\<close>, a subclass of it.\<close>

definition is_OSError :: "error \<Rightarrow> bool" where
  "is_OSError e = (case e of OSError _ \<Rightarrow> True | ShutilError \<Rightarrow> True | _ \<Rightarrow> False)"

definition write_at :: "fspath \<Rightarrow> string \<Rightarrow> filesystem \<Rightarrow> error + filesystem" where
  "write_at p c fs =
     (if is_dir fs p then Inl (OSError EISDIR)
      else if list_ex (is_file fs) (prefixes (butlast p)) then Inl (OSError ENOTDIR)
      else if \<not> is_dir fs (butlast p) then Inl (OSError ENOENT)
      else Inr ((p, File c) # filter (\<lambda>(q, n). q \<noteq> p) fs))"

text \<open>\<open>with open(s, "wb") as fh: fh.write(c)\<close>\<close>

definition write_file :: "string \<Rightarrow> string \<Rightarrow> world \<Rightarrow> error + world" where
  "write_file s c w =
     (if s = [] then Inl (OSError ENOENT) else on_fs (write_at (os_resolve (cwd w) s) c) w)"

section \<open>\<open>ModulesRepo.download_gh_file\<close>\<close>

text \<open>
  The answer of \<open>gh_api.get(api_url)\<close>: the status code, and what decoding the body gives
  (\<open>r.json()\<close>, \<open>result["content"]\<close> and \<open>base64.b64decode\<close>): the bytes or the exception.
\<close>

record file_response =
  file_status :: int
  file_content :: "error + string"

definition download_gh_file ::
    "modules_repo \<Rightarrow> string \<Rightarrow> file_response \<Rightarrow> world \<Rightarrow> (error + unit) \<times> world" where
  "download_gh_file self dl_filename r w =
     (let dl_directory = dirname dl_filename
      in case (if \<not> os_path_exists w dl_directory then os_makedirs dl_directory w else Inr w) of
           Inl e \<Rightarrow> (Inl e, w)
         | Inr w1 \<Rightarrow>
             if file_status r \<noteq> 200
             then (Inl (LookupError (Could_not_fetch_file (fullname self) (file_status r))), w1)
             else
               (case file_content r of
                  Inl e \<Rightarrow> (Inl e, w1)
                | Inr file_contents \<Rightarrow>
                    (case write_file dl_filename file_contents w1 of
                       Inl e \<Rightarrow> (Inl e, w1)
                     | Inr w2 \<Rightarrow> (Inr (), w2))))"

section \<open>\<open>ComponentCommand\<close>\<close>

text \<open>
  The attributes of \<open>self.modules_repo\<close> that \<open>check_modules_structure\<close> reads. Its class is a
  later \<open>ModulesRepo\<close> than the one modelled above, so the attributes are taken as given.
\<close>

record modules_repo_view =
  local_repo_dir :: string
  remote_url :: string
  tracked_branch :: "string option"
  repo_path :: string

record component_command =
  dir :: string
  repo_type :: "string option"
  hide_progress :: bool
  modules_repo :: modules_repo_view

text \<open>
  The two calls into classes kept elsewhere, \<open>ModulesRepo.setup_local_repo(remote_url, branch,
  hide_progress)\<close> and \<open>ModulesJson(dir).check_up_to_date()\<close>, are parameters: what they do to
  the file system, or the exception they raise. Each call is recorded in the trace.
\<close>

record collaborators =
  setup_local_repo_impl :: "string \<Rightarrow> string option \<Rightarrow> bool \<Rightarrow> filesystem \<Rightarrow> error + filesystem"
  check_up_to_date_impl :: "string \<Rightarrow> filesystem \<Rightarrow> error + filesystem"

definition clear_module_dir :: "string \<Rightarrow> string \<Rightarrow> world \<Rightarrow> (error + bool) \<times> world" where
  "clear_module_dir module_name module_dir w =
     (case shutil_rmtree module_dir w of
        Inl e \<Rightarrow>
          if is_OSError e then (Inr False, emit (Log Error (Could_not_remove_module e)) w)
          else (Inl e, w)
      | Inr w1 \<Rightarrow>
          if count_chr CHR ''/'' module_name > 0 then
            (let parent_dir = dirname module_dir
             in case os_rmdir parent_dir w1 of
                  Inl e \<Rightarrow>
                    if is_OSError e
                    then (Inr True,
                          emit (Log Debug (Successfully_removed_module module_name))
                            (emit (Log Debug (Parent_directory_not_empty parent_dir)) w1))
                    else (Inl e, w1)
                | Inr w2 \<Rightarrow>
                    (Inr True,
                     emit (Log Debug (Successfully_removed_module module_name))
                       (emit (Log Debug (Deleted_orphan_tool_directory parent_dir)) w2)))
          else (Inr True, emit (Log Debug (Successfully_removed_module module_name)) w1))"

text \<open>The walk of \<open>check_modules_structure\<close>; \<open>parts[1]\<close> raises when there is no second part.\<close>

fun find_wrong_location ::
    "fspath \<Rightarrow> (fspath \<times> string list \<times> string list) list \<Rightarrow> fspath list \<Rightarrow> error + fspath list" where
  "find_wrong_location modules_root [] wrong_location_modules = Inr wrong_location_modules"
| "find_wrong_location modules_root ((directory, dirnames, files) # rest) wrong_location_modules =
     (if ''main.nf'' \<in> set files then
        (case relative_to directory modules_root of
           Inl e \<Rightarrow> Inl e
         | Inr module_path \<Rightarrow>
             if length module_path \<le> 1 then Inl IndexError
             else if module_path ! 1 = ''modules''
               then find_wrong_location modules_root rest (wrong_location_modules @ [module_path])
             else find_wrong_location modules_root rest wrong_location_modules)
      else find_wrong_location modules_root rest wrong_location_modules)"

text \<open>The targets of one move: both are built on \<open>Path("modules").resolve()\<close>.\<close>

definition wrong_dir_of :: "fspath \<Rightarrow> fspath \<Rightarrow> fspath" where
  "wrong_dir_of working_dir module = (working_dir @ [''modules'']) @ module"

definition correct_dir_of :: "fspath \<Rightarrow> string \<Rightarrow> fspath \<Rightarrow> fspath" where
  "correct_dir_of working_dir rpath module =
     os_resolve (working_dir @ [''modules'']) rpath @ drop 2 module"

fun move_modules :: "string \<Rightarrow> fspath list \<Rightarrow> world \<Rightarrow> (error + unit) \<times> world" where
  "move_modules rpath [] w = (Inr (), w)"
| "move_modules rpath (module # rest) w =
     (let correct_dir = correct_dir_of (cwd w) rpath module;
          wrong_dir = wrong_dir_of (cwd w) module
      in case on_fs (move_at wrong_dir correct_dir) w of
           Inl e \<Rightarrow> (Inl e, w)
         | Inr w' \<Rightarrow> move_modules rpath rest (emit (Log Info (Moved wrong_dir correct_dir)) w'))"

definition modules_root_of :: "component_command \<Rightarrow> world \<Rightarrow> fspath" where
  "modules_root_of self w = os_resolve (cwd w) (dir self) @ [''modules'']"

definition check_modules_structure ::
    "collaborators \<Rightarrow> component_command \<Rightarrow> world \<Rightarrow> (error + unit) \<times> world" where
  "check_modules_structure ext self w =
     (if repo_type self = Some ''pipeline'' then
        (case find_wrong_location (modules_root_of self w)
                (os_walk (fsys w) (modules_root_of self w)) [] of
           Inl e \<Rightarrow> (Inl e, w)
         | Inr wrong_location_modules \<Rightarrow>
             if length wrong_location_modules > 0 then
               (let mr = modules_repo self;
                    w1 = emit (Log Info Modules_structure_outdated) w;
                    w2 = emit (Log Info (Updating (local_repo_dir mr))) w1;
                    w3 = emit (Call_setup_local_repo (remote_url mr) (tracked_branch mr)
                                 (hide_progress self)) w2
                in case on_fs (setup_local_repo_impl ext (remote_url mr) (tracked_branch mr)
                                 (hide_progress self)) w3 of
                     Inl e \<Rightarrow> (Inl e, w3)
                   | Inr w4 \<Rightarrow>
                       (case move_modules (repo_path mr) wrong_location_modules w4 of
                          (Inl e, w5) \<Rightarrow> (Inl e, w5)
                        | (Inr u, w5) \<Rightarrow>
                            (case on_fs (rmtree_at (os_resolve (modules_root_of self w)
                                                      (repo_path mr) @ [''modules''])) w5 of
                               Inl e \<Rightarrow> (Inl e, w5)
                             | Inr w6 \<Rightarrow>
                                 (let w7 = emit (Call_check_up_to_date (dir self)) w6
                                  in case on_fs (check_up_to_date_impl ext (dir self)) w7 of
                                       Inl e \<Rightarrow> (Inl e, w7)
                                     | Inr w8 \<Rightarrow> (Inr (), w8)))))
             else (Inr (), w))
      else (Inr (), w))"

text \<open>
  A legacy-located component: a walked directory that holds \<open>main.nf\<close> and whose second
  segment below the modules root, the one after the namespace segment, is \<open>modules\<close>.
\<close>

definition legacy_located :: "fspath \<Rightarrow> fspath \<Rightarrow> bool" where
  "legacy_located modules_root d \<longleftrightarrow>
     prefix modules_root d \<and> length modules_root + 2 \<le> length d \<and>
     d ! (length modules_root + 1) = ''modules''"

definition legacy_components ::
    "filesystem \<Rightarrow> fspath \<Rightarrow> (fspath \<times> string list \<times> string list) list" where
  "legacy_components fs modules_root =
     filter (\<lambda>e. ''main.nf'' \<in> set (snd (snd e)) \<and> legacy_located modules_root (fst e))
       (os_walk fs modules_root)"

text \<open>
  The world in which the moves start: the two log lines and the call of
  \<open>setup_local_repo\<close> are in the trace, and the file system is the one the refresh left.
\<close>

definition after_refresh :: "component_command \<Rightarrow> world \<Rightarrow> filesystem \<Rightarrow> world" where
  "after_refresh self w refreshed =
     (emit (Call_setup_local_repo (remote_url (modules_repo self))
              (tracked_branch (modules_repo self)) (hide_progress self))
        (emit (Log Info (Updating (local_repo_dir (modules_repo self))))
           (emit (Log Info Modules_structure_outdated) w)))\<lparr>fsys := refreshed\<rparr>"

text \<open>
  A tidy table: for every entry, each directory above it is in the table as a directory.
\<close>

definition tidy :: "filesystem \<Rightarrow> bool" where
  "tidy t \<longleftrightarrow>
     list_all (\<lambda>(q, n). list_all (\<lambda>p. p = [] \<or> map_of t p = Some Dir) (prefixes (butlast q))) t"

section \<open>\<open>urllib.parse.urlparse\<close>\<close>

text \<open>
  The \<open>path\<close> component of \<open>urllib.parse.urlparse(url)\<close>, after CPython 3.11, for a URL
  without control characters or spaces (which \<open>urlsplit\<close> strips first) and with an ASCII
  host: the scheme up to the first colon is cut off when it starts with a letter and holds
  only scheme characters; after \<open>//\<close> the host runs to the next \<open>/\<close>, \<open>?\<close> or \<open>#\<close>; fragment and
  query are cut off; for a scheme that uses parameters, the parameters of the last segment
  are cut off. An unbalanced bracket in the host raises \<open>ValueError\<close>.
\<close>

definition is_ascii_alpha :: "char \<Rightarrow> bool" where
  "is_ascii_alpha c \<longleftrightarrow>
     c \<in> set ''abcdefghijklmnopqrstuvwxyzABCDEFGHIJKLMNOPQRSTUVWXYZ''"

definition is_scheme_char :: "char \<Rightarrow> bool" where
  "is_scheme_char c \<longleftrightarrow> is_ascii_alpha c \<or> c \<in> set ''0123456789+-.''"

definition ascii_lower :: "char \<Rightarrow> char" where
  "ascii_lower c =
     (if c \<in> set ''ABCDEFGHIJKLMNOPQRSTUVWXYZ'' then char_of (of_char c + (32 :: nat)) else c)"

definition uses_params :: "string list" where
  "uses_params = ['''', ''ftp'', ''hdl'', ''prospero'', ''http'', ''imap'', ''https'', ''shttp'',
     ''rtsp'', ''rtspu'', ''sip'', ''sips'', ''mms'', ''sftp'', ''tel'']"

definition split_scheme :: "string \<Rightarrow> string \<times> string" where
  "split_scheme u =
     (let head = takeWhile (\<lambda>c. c \<noteq> CHR '':'') u
      in if CHR '':'' \<in> set u \<and> head \<noteq> [] \<and> is_ascii_alpha (hd u) \<and> list_all is_scheme_char head
         then (map ascii_lower head, drop (Suc (length head)) u)
         else ('''', u))"

definition is_netloc_end :: "char \<Rightarrow> bool" where
  "is_netloc_end c \<longleftrightarrow> c \<in> set ''/?#''"

definition split_netloc :: "string \<Rightarrow> error + string" where
  "split_netloc u =
     (if take 2 u = ''//'' then
        (let netloc = takeWhile (\<lambda>c. \<not> is_netloc_end c) (drop 2 u)
         in if (CHR ''['' \<in> set netloc) \<noteq> (CHR '']'' \<in> set netloc) then Inl ValueError
            else Inr (dropWhile (\<lambda>c. \<not> is_netloc_end c) (drop 2 u)))
      else Inr u)"

definition split_params :: "string \<Rightarrow> string" where
  "split_params u =
     (if CHR ''/'' \<in> set u then
        (let last_sep = nat (rfind_chr CHR ''/'' u);
             last_seg = drop last_sep u
         in if CHR '';'' \<in> set last_seg
            then take (last_sep + length (takeWhile (\<lambda>c. c \<noteq> CHR '';'') last_seg)) u
            else u)
      else takeWhile (\<lambda>c. c \<noteq> CHR '';'') u)"

definition urlparse_path :: "string \<Rightarrow> error + string" where
  "urlparse_path u =
     (case split_scheme u of
        (scheme, rest) \<Rightarrow>
          (case split_netloc rest of
             Inl e \<Rightarrow> Inl e
           | Inr after_netloc \<Rightarrow>
               (let no_fragment = takeWhile (\<lambda>c. c \<noteq> CHR ''#'') after_netloc;
                    no_query = takeWhile (\<lambda>c. c \<noteq> CHR ''?'') no_fragment
                in if scheme \<in> set uses_params \<and> CHR '';'' \<in> set no_query
                   then Inr (split_params no_query) else Inr no_query)))"

section \<open>GitPython\<close>

text \<open>Checking a tree out replaces what is below the work tree root.\<close>

definition place_tree :: "fspath \<Rightarrow> filesystem \<Rightarrow> filesystem \<Rightarrow> filesystem" where
  "place_tree wd t fs =
     filter (\<lambda>(q, n). \<not> strict_prefix wd q) fs @ map (\<lambda>(q, n). (wd @ q, n)) t"

text \<open>
  \<open>git.Repo.clone_from(url, to_path)\<close>: fails when the remote cannot be reached or the
  target is taken; otherwise the target holds the tree of the remote's head branch.
\<close>

definition git_clone_from :: "string \<Rightarrow> string \<Rightarrow> world \<Rightarrow> error + fspath \<times> world" where
  "git_clone_from u to_path w =
     (let p = os_resolve (cwd w) to_path
      in case map_of (remotes w) u of
           None \<Rightarrow> Inl GitCommandError
         | Some r \<Rightarrow>
             if to_path = [] \<or> is_file (fsys w) p \<or> has_children (fsys w) p
                \<or> list_ex (is_file (fsys w)) (prefixes p)
             then Inl GitCommandError
             else Inr (p, w\<lparr>fsys := place_tree p
                                 (case map_of (branches r) (head_branch r) of
                                    None \<Rightarrow> [] | Some t \<Rightarrow> t)
                                 (mkdirs p (fsys w)),
                            clones := (p, \<lparr>origin = u, origin_head = head_branch r,
                                           known_branches = branches r,
                                           active_branch = head_branch r\<rparr>) # clones w\<rparr>))"

text \<open>\<open>git.Repo(path)\<close>: the path has to be a clone.\<close>

definition git_Repo :: "string \<Rightarrow> world \<Rightarrow> error + fspath" where
  "git_Repo s w =
     (case map_of (clones w) (os_resolve (cwd w) s) of
        None \<Rightarrow> Inl InvalidGitRepositoryError
      | Some c \<Rightarrow> Inr (os_resolve (cwd w) s))"

text \<open>
  \<open>repo.remotes.origin.pull()\<close>: fetches the branches of the origin and brings the active
  branch's tree up to date; fails when the origin cannot be reached or has lost the branch.
\<close>

definition git_pull :: "fspath \<Rightarrow> world \<Rightarrow> error + world" where
  "git_pull p w =
     (case map_of (clones w) p of
        None \<Rightarrow> Inl InvalidGitRepositoryError
      | Some c \<Rightarrow>
          (case map_of (remotes w) (origin c) of
             None \<Rightarrow> Inl GitCommandError
           | Some r \<Rightarrow>
               (case map_of (branches r) (active_branch c) of
                  None \<Rightarrow> Inl GitCommandError
                | Some t \<Rightarrow>
                    Inr (w\<lparr>fsys := place_tree p t (fsys w),
                           clones := (p, c\<lparr>known_branches := branches r,
                                           origin_head := head_branch r\<rparr>) # clones w\<rparr>))))"

text \<open>
  \<open>repo.git.checkout(branch)\<close>: GitPython drops a \<open>None\<close> argument, and \<open>git checkout\<close> alone
  changes nothing; a name has to be a branch that the clone knows.
\<close>

definition git_checkout :: "fspath \<Rightarrow> string option \<Rightarrow> world \<Rightarrow> error + world" where
  "git_checkout p b w =
     (case map_of (clones w) p of
        None \<Rightarrow> Inl InvalidGitRepositoryError
      | Some c \<Rightarrow>
          (case b of
             None \<Rightarrow> Inr w
           | Some branch_name \<Rightarrow>
               (case map_of (known_branches c) branch_name of
                  None \<Rightarrow> Inl GitCommandError
                | Some t \<Rightarrow>
                    Inr (w\<lparr>fsys := place_tree p t (fsys w),
                           clones := (p, c\<lparr>active_branch := branch_name\<rparr>) # clones w\<rparr>))))"

text \<open>
  \<open>repo.refs\<close> as names, each with the name of the reference it points to: the active
  branch, \<open>origin/HEAD\<close> and the remote branches.
\<close>

definition repo_refs :: "clone \<Rightarrow> (string \<times> string) list" where
  "repo_refs c =
     (active_branch c, active_branch c)
     # (''origin/HEAD'', ''origin/'' @ origin_head c)
     # map (\<lambda>(b, t). (''origin/'' @ b, ''origin/'' @ b)) (known_branches c)"

definition os_listdir :: "string \<Rightarrow> world \<Rightarrow> error + string list" where
  "os_listdir s w =
     (if s = [] then Inl (OSError ENOENT)
      else case lookup (fsys w) (os_resolve (cwd w) s) of
             None \<Rightarrow> Inl (OSError (missing_errno (fsys w) (os_resolve (cwd w) s)))
           | Some (File c) \<Rightarrow> Inl (OSError ENOTDIR)
           | Some Dir \<Rightarrow> Inr (child_names (fsys w) (os_resolve (cwd w) s) (\<lambda>n. True)))"

section \<open>\<open>ModulesRepo\<close>: construction\<close>

text \<open>
  \<open>ref == "origin/HEAD"\<close> compares a GitPython reference with a \<open>str\<close>. The \<open>__eq__\<close> of a
  reference compares the paths of two references and answers \<open>False\<close> for any object without
  a path, a string included.
\<close>

definition reference_eq_str :: "string \<times> string \<Rightarrow> string \<Rightarrow> bool" where
  "reference_eq_str ref s = False"

text \<open>
  \<open>get_default_branch\<close> reads \<open>self.repo\<close>, takes the first reference that compares equal to
  \<open>"origin/HEAD"\<close> (\<open>next\<close> raises \<open>StopIteration\<close> when there is none), splits the name of the
  reference it points to at the slash into exactly two parts and assigns the second to
  \<open>self.branch\<close>. It has no \<open>return\<close> statement: its value is \<open>None\<close>.
\<close>

definition get_default_branch ::
    "modules_repo \<Rightarrow> world \<Rightarrow> error + string option \<times> modules_repo" where
  "get_default_branch self w =
     (case repo self of
        None \<Rightarrow> Inl AttributeError
      | Some p \<Rightarrow>
          (case map_of (clones w) p of
             None \<Rightarrow> Inl InvalidGitRepositoryError
           | Some c \<Rightarrow>
               (case filter (\<lambda>ref. reference_eq_str ref ''origin/HEAD'') (repo_refs c) of
                  [] \<Rightarrow> Inl StopIteration
                | (ref, target) # others \<Rightarrow>
                    (case split_chr CHR ''/'' target of
                       [remote_name, branch_name] \<Rightarrow> Inr (None, self\<lparr>branch := Some branch_name\<rparr>)
                     | other \<Rightarrow> Inl ValueError))))"

definition branch_exists :: "modules_repo \<Rightarrow> world \<Rightarrow> error + world" where
  "branch_exists self w =
     (case repo self of
        None \<Rightarrow> Inl AttributeError
      | Some p \<Rightarrow>
          (case git_checkout p (branch self) w of
             Inl e \<Rightarrow>
               if e = GitCommandError
               then Inl (LookupError (Branch_not_found (branch self) (fullname self)))
               else Inl e
           | Inr w' \<Rightarrow> Inr w'))"

definition verify_branch :: "modules_repo \<Rightarrow> world \<Rightarrow> error + unit" where
  "verify_branch self w =
     (case local_dir self of
        None \<Rightarrow> Inl AttributeError
      | Some d \<Rightarrow>
          (case os_listdir d w of
             Inl e \<Rightarrow> Inl e
           | Inr dir_names \<Rightarrow>
               if ''modules'' \<notin> set dir_names
               then Inl (LookupError (No_modules_directory (fullname self) (branch self)
                                        (''software'' \<in> set dir_names)))
               else Inr ()))"

text \<open>
  \<open>setup_local_repo(owner, name, remote)\<close>; \<open>NFCORE_DIR\<close> of \<open>nf_core.utils\<close> is a parameter.
  The result is the repository and the object, whose \<open>local_dir\<close> it assigns, or the
  exception, together with the world it leaves.
\<close>

definition setup_local_repo ::
    "string \<Rightarrow> modules_repo \<Rightarrow> string \<Rightarrow> string \<Rightarrow> string option \<Rightarrow> world
       \<Rightarrow> (error + fspath \<times> modules_repo) \<times> world" where
  "setup_local_repo nfcore_dir self owner_arg name_arg remote w =
     (let owner_local_dir = path_join nfcore_dir owner_arg
      in case (if \<not> os_path_exists w owner_local_dir then os_makedirs owner_local_dir w
               else Inr w) of
           Inl e \<Rightarrow> (Inl e, w)
         | Inr w1 \<Rightarrow>
             (let self1 = self\<lparr>local_dir := Some (path_join owner_local_dir name_arg)\<rparr>
              in if \<not> os_path_exists w1 (path_join owner_local_dir name_arg) then
                   (case remote of
                      None \<Rightarrow> (Inl (PlainException (path_join owner_arg name_arg)), w1)
                    | Some remote_str \<Rightarrow>
                        (case git_clone_from remote_str (path_join owner_local_dir name_arg) w1 of
                           Inl e \<Rightarrow>
                             if e = GitCommandError
                             then (Inl (LookupError (Failed_to_clone remote_str)), w1)
                             else (Inl e, w1)
                         | Inr (r, w2) \<Rightarrow> (Inr (r, self1), w2)))
                 else
                   (case git_Repo (path_join owner_local_dir name_arg) w1 of
                      Inl e \<Rightarrow> (Inl e, w1)
                    | Inr r \<Rightarrow>
                        (case git_pull r w1 of
                           Inl e \<Rightarrow> (Inl e, w1)
                         | Inr w2 \<Rightarrow> (Inr (r, self1), w2)))))"

text \<open>Python's truth value of \<open>self.branch\<close>: \<open>None\<close> and the empty string are false.\<close>

definition truthy :: "string option \<Rightarrow> bool" where
  "truthy b = (case b of None \<Rightarrow> False | Some s \<Rightarrow> s \<noteq> [])"

text \<open>The steps of \<open>__init__\<close> up to \<open>self.fullname\<close>, lines 26 to 36.\<close>

definition parse_fullname :: "string option \<Rightarrow> error + string" where
  "parse_fullname remote_url_arg =
     (case remote_url_arg of
        None \<Rightarrow> Inl (LookupError No_remote_url)
      | Some u \<Rightarrow>
          (case split_chr CHR ''@'' u of
             first # second # others \<Rightarrow>
               (case urlparse_path second of
                  Inl e \<Rightarrow> Inl e
                | Inr p \<Rightarrow> Inr (splitext_root p))
           | short \<Rightarrow> Inl IndexError))"

definition new_object :: "string \<Rightarrow> string option \<Rightarrow> modules_repo" where
  "new_object full b =
     \<lparr>fullname = full, branch = b, owner = None, name = None, local_dir = None, repo = None,
      modules_file_tree = [], modules_avail_module_names = []\<rparr>"

text \<open>Lines 39 to 44: the branch when none was given.\<close>

definition choose_branch :: "modules_repo \<Rightarrow> world \<Rightarrow> error + modules_repo" where
  "choose_branch self w =
     (if branch self = None then
        (if fullname self = ''nf-core/modules'' then Inr (self\<lparr>branch := Some ''master''\<rparr>)
         else (case get_default_branch self w of
                 Inl e \<Rightarrow> Inl e
               | Inr (returned, self') \<Rightarrow> Inr (self'\<lparr>branch := returned\<rparr>)))
      else Inr self)"

text \<open>Line 53: \<open>or\<close> takes its right operand only when the left one is false.\<close>

definition wants_verification :: "modules_repo \<Rightarrow> bool" where
  "wants_verification self =
     (if fullname self \<noteq> ''nf-core/modules'' then True else truthy (branch self))"

definition init ::
    "string \<Rightarrow> string option \<Rightarrow> string option \<Rightarrow> world \<Rightarrow> (error + modules_repo) \<times> world" where
  "init nfcore_dir remote_url_arg branch_arg w =
     (case parse_fullname remote_url_arg of
        Inl e \<Rightarrow> (Inl e, w)
      | Inr full \<Rightarrow>
          (case choose_branch (new_object full branch_arg) w of
             Inl e \<Rightarrow> (Inl e, w)
           | Inr self1 \<Rightarrow>
               (case split_chr CHR ''/'' full of
                  [owner_part, name_part] \<Rightarrow>
                    (case setup_local_repo nfcore_dir
                            (self1\<lparr>owner := Some owner_part, name := Some name_part\<rparr>)
                            owner_part name_part remote_url_arg w of
                       (Inl e, w1) \<Rightarrow> (Inl e, w1)
                     | (Inr (r, self2), w1) \<Rightarrow>
                         (case branch_exists (self2\<lparr>repo := Some r\<rparr>) w1 of
                            Inl e \<Rightarrow> (Inl e, w1)
                          | Inr w2 \<Rightarrow>
                              (case (if wants_verification self2
                                     then verify_branch (self2\<lparr>repo := Some r\<rparr>) w2
                                     else Inr ()) of
                                 Inl e \<Rightarrow> (Inl e, w2)
                               | Inr u \<Rightarrow>
                                   (Inr (self2\<lparr>repo := Some r, modules_file_tree := [],
                                                modules_avail_module_names := []\<rparr>), w2))))
                | other \<Rightarrow> (Inl ValueError, w))))"

section \<open>Concrete projects\<close>

text \<open>
  A pipeline at \<open>/work/pipe\<close>, entered as the working directory, with one component in the
  current layout, in the legacy layout, or directly under a single directory of \<open>modules\<close>.
\<close>

definition populated :: "fspath list \<Rightarrow> fspath list \<Rightarrow> filesystem" where
  "populated ds fl = map (\<lambda>p. (p, Dir)) ds @ map (\<lambda>p. (p, File [])) fl"

definition idle_collaborators :: collaborators where
  "idle_collaborators =
     \<lparr>setup_local_repo_impl = (\<lambda>u b h t. Inr t), check_up_to_date_impl = (\<lambda>d t. Inr t)\<rparr>"

definition pipeline_command :: component_command where
  "pipeline_command =
     \<lparr>dir = ''/work/pipe'', repo_type = Some ''pipeline'', hide_progress = False,
      modules_repo = \<lparr>local_repo_dir = ''/home/user/.config/nfcore/nf-core/modules'',
                      remote_url = ''https://github.com/nf-core/modules.git'',
                      tracked_branch = Some ''master'', repo_path = ''nf-core''\<rparr>\<rparr>"

definition migrated_world :: world where
  "migrated_world =
     \<lparr>fsys = populated
        [[''work''], [''work'', ''pipe''], [''work'', ''pipe'', ''modules''],
         [''work'', ''pipe'', ''modules'', ''nf-core''],
         [''work'', ''pipe'', ''modules'', ''nf-core'', ''fastqc'']]
        [[''work'', ''pipe'', ''modules'', ''nf-core'', ''fastqc'', ''main.nf'']],
      cwd = [''work'', ''pipe''], trace = [], remotes = [], clones = []\<rparr>"

definition legacy_world :: world where
  "legacy_world =
     \<lparr>fsys = populated
        [[''work''], [''work'', ''pipe''], [''work'', ''pipe'', ''modules''],
         [''work'', ''pipe'', ''modules'', ''nf-core''],
         [''work'', ''pipe'', ''modules'', ''nf-core'', ''modules''],
         [''work'', ''pipe'', ''modules'', ''nf-core'', ''modules'', ''fastqc'']]
        [[''work'', ''pipe'', ''modules'', ''nf-core'', ''modules'', ''fastqc'', ''main.nf'']],
      cwd = [''work'', ''pipe''], trace = [], remotes = [], clones = []\<rparr>"

definition local_world :: world where
  "local_world =
     \<lparr>fsys = populated
        [[''work''], [''work'', ''pipe''], [''work'', ''pipe'', ''modules''],
         [''work'', ''pipe'', ''modules'', ''local'']]
        [[''work'', ''pipe'', ''modules'', ''local'', ''main.nf'']],
      cwd = [''work'', ''pipe''], trace = [], remotes = [], clones = []\<rparr>"

text \<open>A tool with two sub-tools, and the answer to a download that was not found.\<close>

definition samtools_world :: world where
  "samtools_world =
     \<lparr>fsys = populated
        [[''work''], [''work'', ''pipe''], [''work'', ''pipe'', ''modules''],
         [''work'', ''pipe'', ''modules'', ''nf-core''],
         [''work'', ''pipe'', ''modules'', ''nf-core'', ''samtools''],
         [''work'', ''pipe'', ''modules'', ''nf-core'', ''samtools'', ''sort''],
         [''work'', ''pipe'', ''modules'', ''nf-core'', ''samtools'', ''index'']]
        [[''work'', ''pipe'', ''modules'', ''nf-core'', ''samtools'', ''sort'', ''main.nf''],
         [''work'', ''pipe'', ''modules'', ''nf-core'', ''samtools'', ''index'', ''main.nf'']],
      cwd = [''work'', ''pipe''], trace = [], remotes = [], clones = []\<rparr>"

definition not_found_response :: file_response where
  "not_found_response = \<lparr>file_status = 404, file_content = Inl ValueError\<rparr>"

text \<open>
  Remotes and caches: a repository in the current layout and one in the old \<open>software\<close>
  layout; a machine that reaches them and has no cache yet, one that reaches nothing, and
  one that holds a clone of the default repository but reaches nothing.
\<close>

definition nfcore_home :: string where
  "nfcore_home = ''/home/user/.config/nfcore''"

definition ssh_default_url :: string where
  "ssh_default_url = ''git@github.com:nf-core/modules.git''"

definition https_default_url :: string where
  "https_default_url = ''https://github.com/nf-core/modules.git''"

definition ssh_other_url :: string where
  "ssh_other_url = ''git@github.com:someone/mods.git''"

definition modules_tree :: filesystem where
  "modules_tree = populated [[''modules''], [''modules'', ''fastqc'']]
                            [[''modules'', ''fastqc'', ''main.nf'']]"

definition software_tree :: filesystem where
  "software_tree = populated [[''software''], [''software'', ''fastqc'']]
                             [[''software'', ''fastqc'', ''main.nf'']]"

definition home_dirs :: filesystem where
  "home_dirs = populated [[''home''], [''home'', ''user'']] []"

definition online_world :: world where
  "online_world =
     \<lparr>fsys = home_dirs, cwd = [''home'', ''user''], trace = [],
      remotes = [(ssh_default_url, \<lparr>head_branch = ''master'',
                                     branches = [(''master'', modules_tree)]\<rparr>),
                 (ssh_other_url, \<lparr>head_branch = ''main'',
                                   branches = [(''main'', modules_tree)]\<rparr>)],
      clones = []\<rparr>"

definition old_layout_world :: world where
  "old_layout_world =
     \<lparr>fsys = home_dirs, cwd = [''home'', ''user''], trace = [],
      remotes = [(ssh_default_url, \<lparr>head_branch = ''master'',
                                     branches = [(''master'', software_tree)]\<rparr>)],
      clones = []\<rparr>"

definition offline_world :: world where
  "offline_world =
     \<lparr>fsys = home_dirs, cwd = [''home'', ''user''], trace = [], remotes = [], clones = []\<rparr>"

definition cache_path :: fspath where
  "cache_path = [''home'', ''user'', ''.config'', ''nfcore'', ''nf-core'', ''modules'']"

definition stale_world :: world where
  "stale_world =
     \<lparr>fsys = place_tree cache_path modules_tree (mkdirs cache_path home_dirs),
      cwd = [''home'', ''user''], trace = [], remotes = [],
      clones = [(cache_path, \<lparr>origin = ssh_default_url, origin_head = ''master'',
                               known_branches = [(''master'', modules_tree)],
                               active_branch = ''master''\<rparr>)]\<rparr>"

text \<open>
  The legacy project entered from its parent directory \<open>/work\<close>, and a machine with a second
  directory \<open>/work/other\<close>, entered as the working directory, that has a legacy component of
  its own next to the project.
\<close>

definition outside_world :: world where
  "outside_world = legacy_world\<lparr>cwd := [''work'']\<rparr>"

definition two_trees_world :: world where
  "two_trees_world =
     \<lparr>fsys =
        map (\<lambda>p. (p, Dir))
          [[''work''], [''work'', ''pipe''], [''work'', ''pipe'', ''modules''],
           [''work'', ''pipe'', ''modules'', ''nf-core''],
           [''work'', ''pipe'', ''modules'', ''nf-core'', ''modules''],
           [''work'', ''pipe'', ''modules'', ''nf-core'', ''modules'', ''fastqc''],
           [''work'', ''other''], [''work'', ''other'', ''modules''],
           [''work'', ''other'', ''modules'', ''nf-core''],
           [''work'', ''other'', ''modules'', ''nf-core'', ''modules''],
           [''work'', ''other'', ''modules'', ''nf-core'', ''modules'', ''fastqc'']]
        @ [([''work'', ''pipe'', ''modules'', ''nf-core'', ''modules'', ''fastqc'', ''main.nf''],
            File ''project''),
           ([''work'', ''other'', ''modules'', ''nf-core'', ''modules'', ''fastqc'', ''main.nf''],
            File ''other'')],
      cwd = [''work'', ''other''], trace = [], remotes = [], clones = []\<rparr>"

section \<open>Properties of the tree listing\<close>

lemma collect_names_eq:
  "collect_names names fs = names @ map (\<lambda>f. module_name_of (path f)) (filter (\<lambda>f. is_module_main (path f)) fs)"
  by (induction fs arbitrary: names) auto

lemma replace_scan_absent: "\<not> sublist old s \<Longrightarrow> replace_scan old new s = s"
proof (induction s)
  case Nil
  then show ?case by simp
next
  case (Cons c cs)
  have np: "\<not> prefix old (c # cs)" using Cons.prems by (meson prefix_imp_sublist)
  have ns: "\<not> sublist old cs" using Cons.prems by (simp add: sublist_Cons_right)
  show ?case using np ns Cons.IH by simp
qed

lemma replace_scan_prefix:
  "old \<noteq> [] \<Longrightarrow> replace_scan old new (old @ s) = new @ replace_scan old new s"
  by (cases old) simp_all

lemma replace_scan_only_suffix:
  "old \<noteq> [] \<Longrightarrow> \<not> sublist old (butlast (n @ old)) \<Longrightarrow> replace_scan old [] (n @ old) = n"
proof (induction n)
  case Nil
  then show ?case using replace_scan_prefix [of old "[]" "[]"] by simp
next
  case (Cons c n)
  have bl: "butlast ((c # n) @ old) = c # butlast (n @ old)" using Cons.prems(1) by simp
  have np: "\<not> prefix old (c # n @ old)"
  proof
    assume "prefix old (c # n @ old)"
    then obtain zs where zs: "c # n @ old = old @ zs" by (auto simp: prefix_def)
    then have "zs \<noteq> []" by (metis append_Nil2 length_Cons length_append not_add_less2 lessI add.commute less_add_same_cancel1 list.size(4) zero_less_Suc append_self_conv2 list.distinct(1))
    then have "butlast (c # n @ old) = old @ butlast zs" using zs by (simp add: butlast_append)
    then have "sublist old (butlast ((c # n) @ old))" by (metis append_Cons sublist_appendI append_Nil)
    then show False using Cons.prems(2) by simp
  qed
  have ns: "\<not> sublist old (butlast (n @ old))" using Cons.prems(2) bl by (simp add: sublist_Cons_right)
  show ?case using np ns Cons.IH Cons.prems(1) by simp
qed

lemma split_chr_nonempty: "split_chr sep s \<noteq> []"
  by (induction s) (auto split: list.splits)

lemma split_chr_segments:
  "prefix (hd (split_chr sep s) @ [sep]) (s @ [sep]) \<and>
   (\<forall>w \<in> set (tl (split_chr sep s)). sublist (sep # w @ [sep]) (s @ [sep]))"
proof (induction s)
  case Nil
  then show ?case by simp
next
  case (Cons c cs)
  obtain w ws where r: "split_chr sep cs = w # ws"
    using split_chr_nonempty [of sep cs] by (cases "split_chr sep cs") auto
  have hd_pre: "prefix (w @ [sep]) (cs @ [sep])" using Cons.IH r by simp
  have tl_sub: "\<forall>v \<in> set ws. sublist (sep # v @ [sep]) (cs @ [sep])" using Cons.IH r by simp
  show ?case
  proof (cases "c = sep")
    case True
    have "prefix (sep # w @ [sep]) (sep # cs @ [sep])" using hd_pre by simp
    then have "sublist (sep # w @ [sep]) (sep # cs @ [sep])" by (rule prefix_imp_sublist)
    moreover have "\<forall>v \<in> set ws. sublist (sep # v @ [sep]) (sep # cs @ [sep])"
      using tl_sub by (simp add: sublist_Cons_right)
    ultimately show ?thesis using True r by simp
  next
    case False
    have "\<forall>v \<in> set ws. sublist (sep # v @ [sep]) (c # cs @ [sep])"
      using tl_sub by (simp add: sublist_Cons_right)
    then show ?thesis using False r hd_pre by simp
  qed
qed

lemma between_prefix_suffix:
  assumes "prefix a p" and "suffix b p" and "length a + length b \<le> length p"
  shows "\<exists>n. p = a @ n @ b"
proof -
  from assms(1) obtain zs where zs: "p = a @ zs" by (auto simp: prefix_def)
  from assms(2) obtain ys where ys: "p = ys @ b" by (auto simp: suffix_def)
  have "length a \<le> length ys" using assms(3) ys by simp
  then have "a = take (length a) ys" using zs ys
    by (metis append_eq_append_conv_if append_eq_conv_conj)
  then have "ys = a @ drop (length a) ys" by (metis append_take_drop_id)
  then have "p = a @ drop (length a) ys @ b" using ys by (metis append.assoc)
  then show ?thesis by blast
qed

lemma module_name_of_plain:
  assumes "plain_entry_path (''modules/'' @ n @ ''/main.nf'')"
  shows "module_name_of (''modules/'' @ n @ ''/main.nf'') = n"
proof -
  let ?p = "''modules/'' @ n @ ''/main.nf''"
  have tl_eq: "tl ?p = ''odules/'' @ n @ ''/main.nf''" by simp
  have "sublist (n @ ''/main.nf'') (tl ?p)" unfolding tl_eq by (rule sublist_append_leftI)
  then have a1: "\<not> sublist ''modules/'' (n @ ''/main.nf'')"
    using assms unfolding plain_entry_path_def by (meson sublist_order.order_trans)
  have bl: "butlast ?p = ''modules/'' @ butlast (n @ ''/main.nf'')" by (simp add: butlast_append)
  have "sublist (butlast (n @ ''/main.nf'')) (butlast ?p)" unfolding bl by (rule sublist_append_leftI)
  then have a2: "\<not> sublist ''/main.nf'' (butlast (n @ ''/main.nf''))"
    using assms unfolding plain_entry_path_def by (meson sublist_order.order_trans)
  have "str_replace ?p ''modules/'' [] = replace_scan ''modules/'' [] (n @ ''/main.nf'')"
    using replace_scan_prefix [of "''modules/''" "[]" "n @ ''/main.nf''"] by (simp add: str_replace_def)
  also have "\<dots> = n @ ''/main.nf''" using a1 by (rule replace_scan_absent)
  finally have s1: "str_replace ?p ''modules/'' [] = n @ ''/main.nf''" .
  have "replace_scan ''/main.nf'' [] (n @ ''/main.nf'') = n"
    using a2 by (intro replace_scan_only_suffix) simp_all
  then show ?thesis unfolding module_name_of_def s1 by (simp add: str_replace_def)
qed

lemma no_test_segment:
  assumes "\<not> str_in ''/test/'' (''modules/'' @ n @ ''/main.nf'')"
  shows "''test'' \<notin> set (split_chr CHR ''/'' n)"
proof
  assume mem: "''test'' \<in> set (split_chr CHR ''/'' n)"
  let ?r = "split_chr CHR ''/'' n"
  have ne: "?r \<noteq> []" by (rule split_chr_nonempty)
  from mem consider "''test'' = hd ?r" | "''test'' \<in> set (tl ?r)" using ne by (cases ?r) auto
  then have "sublist ''/test/'' (''/'' @ n @ ''/'')"
  proof cases
    case 1
    then have "prefix (''test'' @ ''/'') (n @ ''/'')" using split_chr_segments [of "CHR ''/''" n] by simp
    then have "prefix (''/'' @ ''test'' @ ''/'') (''/'' @ n @ ''/'')" by simp
    then show ?thesis using prefix_imp_sublist by fastforce
  next
    case 2
    then have "sublist (CHR ''/'' # ''test'' @ ''/'') (n @ ''/'')" using split_chr_segments [of "CHR ''/''" n] by blast
    then show ?thesis by (simp add: sublist_Cons_right)
  qed
  moreover have "sublist (''/'' @ n @ ''/'') (''modules/'' @ n @ ''/main.nf'')"
    using sublist_appendI [of "''/'' @ n @ ''/''" "''modules''" "''main.nf''"] by simp
  ultimately have "sublist ''/test/'' (''modules/'' @ n @ ''/main.nf'')" by (meson sublist_order.order_trans)
  then show False using assms by (simp add: str_in_def)
qed

lemma plain_candidates:
  assumes "is_module_main p" and "plain_entry_path p"
  shows "\<exists>n. p = ''modules/'' @ n @ ''/main.nf'' \<and> module_name_of p = n"
proof -
  have "prefix ''modules/'' p" "suffix ''/main.nf'' p" using assms(1) by (simp_all add: is_module_main_def startswith_def endswith_def)
  moreover have "length ''modules/'' + length ''/main.nf'' \<le> length p" using assms(2) by (simp add: plain_entry_path_def)
  ultimately obtain n where n: "p = ''modules/'' @ n @ ''/main.nf''" using between_prefix_suffix by blast
  then show ?thesis using module_name_of_plain assms(2) by blast
qed

lemma listing_on_fresh:
  assumes "get_modules_file_tree r self = Inr self'" and "modules_avail_module_names self = []"
  shows "modules_avail_module_names self' =
           map (\<lambda>f. module_name_of (path f)) (filter (\<lambda>f. is_module_main (path f)) (tree r))"
  using assms by (auto simp: get_modules_file_tree_def collect_names_eq Let_def split: if_splits)

lemma test_scenario_names:
  "map_sum id modules_avail_module_names (get_modules_file_tree test_scenario fresh_listing)
     = Inr [''fastqc'']"
  by (simp add: get_modules_file_tree_def test_scenario_def ok_response_def fresh_listing_def
      entry_def is_module_main_def module_name_of_def str_replace_def startswith_def endswith_def
      str_in_def suffix_to_prefix sublist_Cons_right)

text \<open>
  C2, as stated, fails on the code: the filter of \<open>get_modules_file_tree\<close> drops the paths that
  contain \<open>/test/\<close>, so the path \<open>modules/fastqc/tests/main.nf\<close> of the scenario passes it and
  the listing holds the two names \<open>fastqc\<close> and \<open>fastqc/tests\<close>.
\<close>

theorem tests_directory_is_listed:
  "map_sum id modules_avail_module_names (get_modules_file_tree tests_scenario fresh_listing)
     = Inr [''fastqc'', ''fastqc/tests'']
   \<and> set [''fastqc'', ''fastqc/tests''] \<noteq> {''fastqc''}"
  by (simp add: get_modules_file_tree_def tests_scenario_def ok_response_def fresh_listing_def
      entry_def is_module_main_def module_name_of_def str_replace_def startswith_def endswith_def
      str_in_def suffix_to_prefix sublist_Cons_right)

text \<open>
  C2, amended: with the test directory named \<open>test\<close>, as the code has it, the tree
  \<open>modules/fastqc/main.nf\<close>, \<open>modules/fastqc/meta.yml\<close>, \<open>modules/fastqc/test/main.nf\<close> lists
  exactly \<open>fastqc\<close>. In general, on an object whose list of names is still empty and for a tree
  whose candidate paths have the plain shape \<open>modules/<name>/main.nf\<close>, a successful listing
  holds exactly the names \<open>n\<close> for which the tree has the path \<open>modules/n/main.nf\<close> and that
  path does not contain \<open>/test/\<close>; no listed name has a path segment \<open>test\<close>.
\<close>

theorem listing_names:
  "map_sum id modules_avail_module_names (get_modules_file_tree test_scenario fresh_listing)
     = Inr [''fastqc'']
   \<and> (\<forall>r self self'.
        get_modules_file_tree r self = Inr self' \<and> modules_avail_module_names self = [] \<and>
        (\<forall>f \<in> set (tree r). startswith (path f) ''modules/'' \<and> endswith (path f) ''/main.nf''
            \<longrightarrow> plain_entry_path (path f))
        \<longrightarrow> set (modules_avail_module_names self') =
              {n. \<exists>f \<in> set (tree r). path f = ''modules/'' @ n @ ''/main.nf'' \<and>
                                      \<not> str_in ''/test/'' (path f)}
            \<and> (\<forall>n \<in> set (modules_avail_module_names self').
                  ''test'' \<notin> set (split_chr CHR ''/'' n)))"
proof (intro conjI allI impI)
  show "map_sum id modules_avail_module_names (get_modules_file_tree test_scenario fresh_listing)
     = Inr [''fastqc'']"
    by (rule test_scenario_names)
next
  fix r self self'
  assume h: "get_modules_file_tree r self = Inr self' \<and> modules_avail_module_names self = [] \<and>
        (\<forall>f \<in> set (tree r). startswith (path f) ''modules/'' \<and> endswith (path f) ''/main.nf''
            \<longrightarrow> plain_entry_path (path f))"
  then have names: "modules_avail_module_names self' =
           map (\<lambda>f. module_name_of (path f)) (filter (\<lambda>f. is_module_main (path f)) (tree r))"
    using listing_on_fresh by blast
  have plain: "\<And>f. f \<in> set (tree r) \<Longrightarrow> is_module_main (path f) \<Longrightarrow>
      \<exists>n. path f = ''modules/'' @ n @ ''/main.nf'' \<and> module_name_of (path f) = n"
    using h plain_candidates by (simp add: is_module_main_def)
  have main_iff: "\<And>n. is_module_main (''modules/'' @ n @ ''/main.nf'') \<longleftrightarrow>
      \<not> str_in ''/test/'' (''modules/'' @ n @ ''/main.nf'')"
    by (simp add: is_module_main_def startswith_def endswith_def suffix_def)
  show "set (modules_avail_module_names self') =
              {n. \<exists>f \<in> set (tree r). path f = ''modules/'' @ n @ ''/main.nf'' \<and>
                                      \<not> str_in ''/test/'' (path f)}" (is "?L = ?R")
  proof (intro set_eqI iffI)
    fix n assume "n \<in> ?L"
    then obtain f where f: "f \<in> set (tree r)" "is_module_main (path f)" "n = module_name_of (path f)"
      unfolding names by auto
    from plain [OF f(1,2)] obtain m where m: "path f = ''modules/'' @ m @ ''/main.nf''" "module_name_of (path f) = m"
      by blast
    have "\<not> str_in ''/test/'' (path f)" using f(2) by (simp add: is_module_main_def)
    then show "n \<in> ?R" using f m by auto
  next
    fix n assume "n \<in> ?R"
    then obtain f where f: "f \<in> set (tree r)" "path f = ''modules/'' @ n @ ''/main.nf''"
        "\<not> str_in ''/test/'' (path f)" by blast
    then have mm: "is_module_main (path f)" using main_iff by simp
    from plain [OF f(1) mm] have "module_name_of (path f) = n" using f(2) by simp
    then show "n \<in> ?L" unfolding names using f(1) mm by force
  qed
  then show "\<forall>n \<in> set (modules_avail_module_names self'). ''test'' \<notin> set (split_chr CHR ''/'' n)"
    using no_test_segment by auto
qed

theorem listing_names_witness:
  "get_modules_file_tree test_scenario fresh_listing =
     Inr (fresh_listing\<lparr>modules_file_tree := tree test_scenario,
                         modules_avail_module_names := [''fastqc'']\<rparr>)
   \<and> modules_avail_module_names fresh_listing = []
   \<and> list_all (\<lambda>f. startswith (path f) ''modules/'' \<and> endswith (path f) ''/main.nf''
                    \<longrightarrow> plain_entry_path (path f)) (tree test_scenario)
   \<and> set (modules_avail_module_names
            (fresh_listing\<lparr>modules_file_tree := tree test_scenario,
                            modules_avail_module_names := [''fastqc'']\<rparr>)) =
       {n. \<exists>f \<in> set (tree test_scenario). path f = ''modules/'' @ n @ ''/main.nf'' \<and>
                                             \<not> str_in ''/test/'' (path f)}
   \<and> ''test'' \<notin> set (split_chr CHR ''/'' ''fastqc'')"
proof -
  let ?s' = "fresh_listing\<lparr>modules_file_tree := tree test_scenario,
                            modules_avail_module_names := [''fastqc'']\<rparr>"
  have h1: "get_modules_file_tree test_scenario fresh_listing = Inr ?s'"
    by (simp add: get_modules_file_tree_def test_scenario_def ok_response_def fresh_listing_def
      entry_def is_module_main_def module_name_of_def str_replace_def startswith_def endswith_def
      str_in_def suffix_to_prefix sublist_Cons_right)
  have h2: "modules_avail_module_names fresh_listing = []"
    by (simp add: fresh_listing_def)
  have h3: "list_all (\<lambda>f. startswith (path f) ''modules/'' \<and> endswith (path f) ''/main.nf''
                    \<longrightarrow> plain_entry_path (path f)) (tree test_scenario)"
    by (simp add: test_scenario_def ok_response_def entry_def plain_entry_path_def
        startswith_def endswith_def suffix_to_prefix sublist_Cons_right)
  then have h3': "\<forall>f \<in> set (tree test_scenario).
         startswith (path f) ''modules/'' \<and> endswith (path f) ''/main.nf''
         \<longrightarrow> plain_entry_path (path f)"
    by (simp add: list_all_iff)
  have c: "set (modules_avail_module_names ?s') =
          {n. \<exists>f \<in> set (tree test_scenario). path f = ''modules/'' @ n @ ''/main.nf'' \<and>
                                             \<not> str_in ''/test/'' (path f)}
        \<and> (\<forall>n \<in> set (modules_avail_module_names ?s').
              ''test'' \<notin> set (split_chr CHR ''/'' n))"
    using listing_names h1 h2 h3' by blast
  have m: "''fastqc'' \<in> set (modules_avail_module_names ?s')" by simp
  from c m have "''test'' \<notin> set (split_chr CHR ''/'' ''fastqc'')" by blast
  then show ?thesis using h1 h2 h3 c by blast
qed

section \<open>Properties of the structure check\<close>

lemma find_wrong_location_short:
  assumes "\<forall>e \<in> set entries. prefix root (fst e)"
    and "\<exists>e \<in> set entries. ''main.nf'' \<in> set (snd (snd e)) \<and> length (fst e) \<le> Suc (length root)"
  shows "find_wrong_location root entries acc = Inl IndexError"
  using assms
proof (induction entries arbitrary: acc)
  case Nil
  then show ?case by simp
next
  case (Cons x entries)
  obtain d ds fl where x: "x = (d, ds, fl)" by (cases x)
  have pd: "prefix root d" using Cons.prems(1) x by simp
  show ?case
  proof (cases "''main.nf'' \<in> set fl \<and> length d \<le> Suc (length root)")
    case True
    then have "length (drop (length root) d) \<le> 1" by (simp add: le_diff_conv)
    then show ?thesis using True pd x by (simp add: relative_to_def)
  next
    case False
    then have ex: "\<exists>e \<in> set entries. ''main.nf'' \<in> set (snd (snd e)) \<and> length (fst e) \<le> Suc (length root)"
      using Cons.prems(2) x by auto
    have al: "\<forall>e \<in> set entries. prefix root (fst e)" using Cons.prems(1) by simp
    have ih: "\<And>acc. find_wrong_location root entries acc = Inl IndexError"
      using Cons.IH [OF al ex] .
    show ?thesis using pd x ih by (simp add: relative_to_def)
  qed
qed

lemma os_walk_prefix: "\<forall>e \<in> set (os_walk fs root). prefix root (fst e)"
  by (auto simp: os_walk_def strict_prefix_def)

lemma os_walk_child:
  assumes "is_dir fs root" and "map_of fs (root @ [n]) = Some Dir"
    and "map_of fs (root @ [n, f]) = Some (File c)"
  shows "\<exists>e \<in> set (os_walk fs root). f \<in> set (snd (snd e)) \<and> fst e = root @ [n]"
proof -
  have m1: "(root @ [n], Dir) \<in> set fs" using assms(2) by (rule map_of_SomeD)
  have m2: "(root @ [n, f], File c) \<in> set fs" using assms(3) by (rule map_of_SomeD)
  have "(root @ [n, f], File c) \<in> set (filter (\<lambda>(q, k). q \<noteq> [] \<and> butlast q = root @ [n] \<and> k \<noteq> Dir) fs)"
    using m2 by (simp add: butlast_append)
  then have "(\<lambda>(q, k). last q) (root @ [n, f], File c) \<in> set (child_names fs (root @ [n]) (\<lambda>k. k \<noteq> Dir))"
    unfolding child_names_def set_map by (rule imageI)
  then have c: "f \<in> set (child_names fs (root @ [n]) (\<lambda>k. k \<noteq> Dir))" by simp
  have "(root @ [n], Dir) \<in> set (filter (\<lambda>(q, k). k = Dir \<and> strict_prefix root q) fs)"
    using m1 by (simp add: strict_prefix_def)
  then have "fst (root @ [n], Dir) \<in> set (map fst (filter (\<lambda>(q, k). k = Dir \<and> strict_prefix root q) fs))"
    unfolding set_map by (rule imageI)
  then have d: "root @ [n] \<in> set (map fst (filter (\<lambda>(q, k). k = Dir \<and> strict_prefix root q) fs))" by simp
  let ?e = "(root @ [n], child_names fs (root @ [n]) (\<lambda>k. k = Dir), child_names fs (root @ [n]) (\<lambda>k. k \<noteq> Dir))"
  have "?e \<in> set (os_walk fs root)" using assms(1) d by (auto simp: os_walk_def)
  then show ?thesis using c by force
qed

lemma find_wrong_location_result:
  "find_wrong_location root entries acc = Inr r \<Longrightarrow>
   r = acc @ map (\<lambda>e. drop (length root) (fst e))
         (filter (\<lambda>e. ''main.nf'' \<in> set (snd (snd e)) \<and> legacy_located root (fst e)) entries)"
proof (induction entries arbitrary: acc)
  case Nil
  then show ?case by simp
next
  case (Cons x entries)
  obtain d ds fl where x: "x = (d, ds, fl)" by (cases x)
  show ?case
  proof (cases "''main.nf'' \<in> set fl")
    case False
    then show ?thesis using Cons x by simp
  next
    case True
    then have pd: "prefix root d" and len: "\<not> length (drop (length root) d) \<le> 1"
      using Cons.prems x by (auto simp: relative_to_def split: if_splits)
    have nth: "drop (length root) d ! 1 = d ! (length root + 1)" using len by simp
    have leg: "legacy_located root d \<longleftrightarrow> drop (length root) d ! 1 = ''modules''"
      unfolding legacy_located_def nth using pd len by auto
    show ?thesis
    proof (cases "drop (length root) d ! 1 = ''modules''")
      case m: True
      then have "find_wrong_location root entries (acc @ [drop (length root) d]) = Inr r"
        using Cons.prems x True pd len by (simp add: relative_to_def)
      from Cons.IH [OF this] show ?thesis using x True leg m by simp
    next
      case m: False
      then have "find_wrong_location root entries acc = Inr r"
        using Cons.prems x True pd len by (simp add: relative_to_def)
      from Cons.IH [OF this] show ?thesis using x True leg m by simp
    qed
  qed
qed

lemma find_wrong_location_error:
  "\<forall>e \<in> set entries. prefix root (fst e) \<Longrightarrow> find_wrong_location root entries acc = Inl err \<Longrightarrow>
   err = IndexError"
proof (induction entries arbitrary: acc)
  case Nil
  then show ?case by simp
next
  case (Cons x entries)
  obtain d ds fl where x: "x = (d, ds, fl)" by (cases x)
  have pd: "prefix root d" using Cons.prems(1) x by simp
  have al: "\<forall>e \<in> set entries. prefix root (fst e)" using Cons.prems(1) by simp
  show ?case using Cons.prems(2) Cons.IH [OF al] x pd
    by (auto simp: relative_to_def split: if_splits)
qed

text \<open>
  C10: the walk of \<open>check_modules_structure\<close> reads \<open>parts[1]\<close> of every directory that holds
  \<open>main.nf\<close>. In a pipeline whose \<open>modules\<close> directory has a sub-directory \<open>n\<close> with a file
  \<open>main.nf\<close> directly in it, the check raises \<open>IndexError\<close>, whatever else the tree holds, and
  leaves the world as it was: it neither completes nor raises one of its own errors.
\<close>

theorem structure_check_index_error:
  assumes "repo_type self = Some ''pipeline''"
    and "is_dir (fsys w) (modules_root_of self w)"
    and "map_of (fsys w) (modules_root_of self w @ [n]) = Some Dir"
    and "map_of (fsys w) (modules_root_of self w @ [n, ''main.nf'']) = Some (File c)"
  shows "check_modules_structure ext self w = (Inl IndexError, w)"
proof -
  let ?root = "modules_root_of self w"
  obtain e where e: "e \<in> set (os_walk (fsys w) ?root)" "''main.nf'' \<in> set (snd (snd e))" "fst e = ?root @ [n]"
    using os_walk_child [OF assms(2,3,4)] by blast
  then have "length (fst e) \<le> Suc (length ?root)" by simp
  then have "find_wrong_location ?root (os_walk (fsys w) ?root) [] = Inl IndexError"
    using find_wrong_location_short os_walk_prefix e by blast
  then show ?thesis using assms(1) by (simp add: check_modules_structure_def)
qed

theorem structure_check_index_error_witness:
  "repo_type pipeline_command = Some ''pipeline''
   \<and> is_dir (fsys local_world) (modules_root_of pipeline_command local_world)
   \<and> map_of (fsys local_world) (modules_root_of pipeline_command local_world @ [''local''])
       = Some Dir
   \<and> map_of (fsys local_world)
       (modules_root_of pipeline_command local_world @ [''local'', ''main.nf'']) = Some (File [])
   \<and> check_modules_structure idle_collaborators pipeline_command local_world
       = (Inl IndexError, local_world)"
proof -
  have h1: "repo_type pipeline_command = Some ''pipeline''" by code_simp
  have h2: "is_dir (fsys local_world) (modules_root_of pipeline_command local_world)"
    by code_simp
  have h3: "map_of (fsys local_world) (modules_root_of pipeline_command local_world @ [''local''])
       = Some Dir" by code_simp
  have h4: "map_of (fsys local_world)
       (modules_root_of pipeline_command local_world @ [''local'', ''main.nf'']) = Some (File [])"
    by code_simp
  show ?thesis
    using structure_check_index_error [OF h1 h2 h3 h4, of idle_collaborators] h1 h2 h3 h4
    by blast
qed

text \<open>
  C6: when the walk finds no legacy-located component, \<open>check_modules_structure\<close> leaves the
  world unchanged: the file system is the same (no move, no removal), and the trace is the
  same (no log line, no refresh of the local repository, no manifest check). It then either
  completes or stops at the \<open>IndexError\<close> of the walk, and running it again gives the same.
\<close>

theorem no_legacy_no_effect:
  assumes "legacy_components (fsys w) (modules_root_of self w) = []"
  shows "snd (check_modules_structure ext self w) = w
       \<and> (fst (check_modules_structure ext self w) = Inr ()
           \<or> fst (check_modules_structure ext self w) = Inl IndexError)
       \<and> check_modules_structure ext self (snd (check_modules_structure ext self w))
           = check_modules_structure ext self w"
proof -
  let ?root = "modules_root_of self w"
  let ?found = "find_wrong_location ?root (os_walk (fsys w) ?root) []"
  have r: "\<And>r. ?found = Inr r \<Longrightarrow> r = []"
    using find_wrong_location_result [of ?root "os_walk (fsys w) ?root" "[]"] assms
    by (simp add: legacy_components_def)
  have e: "\<And>err. ?found = Inl err \<Longrightarrow> err = IndexError"
    using find_wrong_location_error os_walk_prefix by blast
  have s: "snd (check_modules_structure ext self w) = w"
    using r by (auto simp: check_modules_structure_def split: sum.splits)
  have f: "fst (check_modules_structure ext self w) = Inr ()
           \<or> fst (check_modules_structure ext self w) = Inl IndexError"
    using r e by (auto simp: check_modules_structure_def split: sum.splits)
  show ?thesis using s f by simp
qed


theorem no_legacy_no_effect_witness:
  "legacy_components (fsys migrated_world) (modules_root_of pipeline_command migrated_world) = []
   \<and> check_modules_structure idle_collaborators pipeline_command migrated_world
       = (Inr (), migrated_world)
   \<and> snd (check_modules_structure idle_collaborators pipeline_command migrated_world)
       = migrated_world"
proof -
  have h: "legacy_components (fsys migrated_world)
             (modules_root_of pipeline_command migrated_world) = []"
    by code_simp
  have v: "check_modules_structure idle_collaborators pipeline_command migrated_world
       = (Inr (), migrated_world)" by code_simp
  show ?thesis using no_legacy_no_effect [OF h, of idle_collaborators] h v by blast
qed


section \<open>Properties of removal and download\<close>

lemma map_of_filter_out: "\<not> P k \<Longrightarrow> map_of (filter (\<lambda>(q, n). P q) fs) k = None"
  by (induction fs) auto

lemma map_of_filter_None: "map_of fs k = None \<Longrightarrow> map_of (filter Q fs) k = None"
  by (induction fs) (auto split: if_splits)

lemma map_of_filter_other: "P k \<Longrightarrow> map_of (filter (\<lambda>(q, n). P q) fs) k = map_of fs k"
  by (induction fs) auto

lemma map_of_dirs: "q \<in> set qs \<Longrightarrow> map_of (map (\<lambda>q. (q, Dir)) qs) q = Some Dir"
  by (induction qs) auto

lemma map_of_dirs_range: "map_of (map (\<lambda>q. (q, Dir)) qs) q = Some v \<Longrightarrow> v = Dir"
  by (induction qs) (auto split: if_splits)

lemma lookup_remove_tree: "p \<noteq> [] \<Longrightarrow> prefix p q \<Longrightarrow> lookup (remove_tree p fs) q = None"
  using map_of_filter_out [of "\<lambda>q. \<not> prefix p q" q fs]
  by (auto simp: lookup_def remove_tree_def)

lemma lookup_remove_tree_None: "q \<noteq> [] \<Longrightarrow> lookup fs q = None \<Longrightarrow> lookup (remove_tree p fs) q = None"
  by (simp add: lookup_def remove_tree_def map_of_filter_None)

lemma lookup_mkdirs_file:
  "lookup (mkdirs p fs) q = Some (File c) \<longleftrightarrow> lookup fs q = Some (File c)"
proof (cases "q = []")
  case True
  then show ?thesis by (simp add: lookup_def)
next
  case False
  show ?thesis
  proof (cases "map_of fs q")
    case None
    then show ?thesis using False map_of_dirs_range
      by (fastforce simp: lookup_def mkdirs_def map_add_def split: option.splits)
  next
    case (Some v)
    then show ?thesis using False by (simp add: lookup_def mkdirs_def map_add_def)
  qed
qed

lemma lookup_mkdirs_self: "lookup fs p = None \<Longrightarrow> lookup (mkdirs p fs) p = Some Dir"
proof -
  assume a: "lookup fs p = None"
  then have ne: "p \<noteq> []" and none: "map_of fs p = None" by (auto simp: lookup_def split: if_splits)
  have "p \<in> set (filter (\<lambda>q. q \<noteq> [] \<and> map_of fs q = None) (prefixes p))"
    using ne none by simp
  then have "map_of (map (\<lambda>q. (q, Dir)) (filter (\<lambda>q. q \<noteq> [] \<and> map_of fs q = None) (prefixes p))) p = Some Dir"
    by (rule map_of_dirs)
  then show ?thesis using ne none by (simp add: lookup_def mkdirs_def map_add_def)
qed

lemma os_rmdir_error: "os_rmdir s w = Inl e \<Longrightarrow> is_OSError e"
  by (auto simp: os_rmdir_def on_fs_def rmdir_at_def is_OSError_def
      split: if_splits sum.splits option.splits node.splits)

lemma shutil_rmtree_result:
  "shutil_rmtree s w = Inr w1 \<Longrightarrow>
   os_resolve (cwd w) s \<noteq> [] \<and> fsys w1 = remove_tree (os_resolve (cwd w) s) (fsys w) \<and>
   cwd w1 = cwd w \<and> trace w1 = trace w"
  by (auto simp: shutil_rmtree_def on_fs_def rmtree_at_def
      split: if_splits sum.splits option.splits node.splits)

lemma os_rmdir_result:
  "os_rmdir s w = Inr w2 \<Longrightarrow>
   s \<noteq> [] \<and> os_resolve (cwd w) s \<noteq> [] \<and> fsys w2 = remove_tree (os_resolve (cwd w) s) (fsys w) \<and>
   cwd w2 = cwd w \<and> trace w2 = trace w"
  by (auto simp: os_rmdir_def on_fs_def rmdir_at_def
      split: if_splits sum.splits option.splits node.splits)

text \<open>
  C8: when \<open>shutil.rmtree\<close> of the component directory succeeds, \<open>clear_module_dir\<close> returns
  \<open>True\<close> and nothing is left at or below that directory. For a name with a slash it then
  tries \<open>os.rmdir\<close> on the parent: a failure is logged and changes nothing else, a success
  removes the parent. For a name without a slash the parent is not touched.
\<close>

theorem clear_module_dir_best_effort:
  assumes "shutil_rmtree module_dir w = Inr w1"
  shows "fst (clear_module_dir module_name module_dir w) = Inr True
       \<and> (\<forall>q. prefix (os_resolve (cwd w) module_dir) q \<longrightarrow>
               lookup (fsys (snd (clear_module_dir module_name module_dir w))) q = None)
       \<and> (0 < count_chr CHR ''/'' module_name \<longrightarrow>
            (case os_rmdir (dirname module_dir) w1 of
               Inl e \<Rightarrow>
                 fsys (snd (clear_module_dir module_name module_dir w)) = fsys w1 \<and>
                 Log Debug (Parent_directory_not_empty (dirname module_dir))
                   \<in> set (trace (snd (clear_module_dir module_name module_dir w)))
             | Inr w2 \<Rightarrow>
                 fsys (snd (clear_module_dir module_name module_dir w)) = fsys w2 \<and>
                 \<not> os_path_exists (snd (clear_module_dir module_name module_dir w))
                     (dirname module_dir)))
       \<and> (count_chr CHR ''/'' module_name = 0 \<longrightarrow>
            fsys (snd (clear_module_dir module_name module_dir w)) = fsys w1)"
proof -
  let ?p = "os_resolve (cwd w) module_dir"
  have r1: "?p \<noteq> []" "fsys w1 = remove_tree ?p (fsys w)" "cwd w1 = cwd w"
    using shutil_rmtree_result [OF assms] by simp_all
  have gone1: "\<And>q. prefix ?p q \<Longrightarrow> lookup (fsys w1) q = None"
    using r1 lookup_remove_tree by simp
  show ?thesis
  proof (cases "0 < count_chr CHR ''/'' module_name")
    case False
    then show ?thesis using assms gone1 by (simp add: clear_module_dir_def emit_def)
  next
    case True
    show ?thesis
    proof (cases "os_rmdir (dirname module_dir) w1")
      case (Inl e)
      then show ?thesis using assms True gone1 os_rmdir_error [OF Inl]
        by (simp add: clear_module_dir_def emit_def Let_def)
    next
      case (Inr w2)
      have r2: "dirname module_dir \<noteq> []" "os_resolve (cwd w1) (dirname module_dir) \<noteq> []"
          "fsys w2 = remove_tree (os_resolve (cwd w1) (dirname module_dir)) (fsys w1)"
          "cwd w2 = cwd w1"
        using os_rmdir_result [OF Inr] by simp_all
      have gone2: "\<And>q. prefix ?p q \<Longrightarrow> lookup (fsys w2) q = None"
      proof -
        fix q assume pq: "prefix ?p q"
        then have "q \<noteq> []" using r1(1) by auto
        then show "lookup (fsys w2) q = None"
          unfolding r2(3) using gone1 [OF pq] by (rule lookup_remove_tree_None)
      qed
      have parent: "lookup (fsys w2) (os_resolve (cwd w2) (dirname module_dir)) = None"
        unfolding r2(3) r2(4) using r2(2) by (intro lookup_remove_tree) simp_all
      show ?thesis using assms True Inr gone2 parent
        by (simp add: clear_module_dir_def emit_def Let_def os_path_exists_def)
    qed
  qed
qed

theorem clear_module_dir_best_effort_witness:
  "\<not> isl (shutil_rmtree ''modules/nf-core/samtools/sort'' samtools_world)
   \<and> 0 < count_chr CHR ''/'' ''samtools/sort''
   \<and> os_rmdir (dirname ''modules/nf-core/samtools/sort'')
        (projr (shutil_rmtree ''modules/nf-core/samtools/sort'' samtools_world))
       = Inl (OSError ENOTEMPTY)
   \<and> fst (clear_module_dir ''samtools/sort'' ''modules/nf-core/samtools/sort'' samtools_world)
       = Inr True
   \<and> lookup (fsys (snd (clear_module_dir ''samtools/sort'' ''modules/nf-core/samtools/sort''
                          samtools_world)))
        [''work'', ''pipe'', ''modules'', ''nf-core'', ''samtools'', ''sort'', ''main.nf'']
       = None
   \<and> Log Debug (Parent_directory_not_empty (dirname ''modules/nf-core/samtools/sort''))
       \<in> set (trace (snd (clear_module_dir ''samtools/sort'' ''modules/nf-core/samtools/sort''
                            samtools_world)))"
proof -
  let ?d = "''modules/nf-core/samtools/sort''"
  let ?w1 = "projr (shutil_rmtree ?d samtools_world)"
  have i: "\<not> isl (shutil_rmtree ?d samtools_world)" by code_simp
  then have h1: "shutil_rmtree ?d samtools_world = Inr ?w1" by simp
  have h2: "0 < count_chr CHR ''/'' ''samtools/sort''" by code_simp
  have h3: "os_rmdir (dirname ?d) ?w1 = Inl (OSError ENOTEMPTY)" by code_simp
  have p: "prefix (os_resolve (cwd samtools_world) ?d)
             [''work'', ''pipe'', ''modules'', ''nf-core'', ''samtools'', ''sort'', ''main.nf'']"
    by code_simp
  note t = clear_module_dir_best_effort [OF h1, of "''samtools/sort''"]
  from t have a: "fst (clear_module_dir ''samtools/sort'' ?d samtools_world) = Inr True" by blast
  from t p have b: "lookup (fsys (snd (clear_module_dir ''samtools/sort'' ?d samtools_world)))
        [''work'', ''pipe'', ''modules'', ''nf-core'', ''samtools'', ''sort'', ''main.nf''] = None"
    by blast
  from t h2 have "case os_rmdir (dirname ?d) ?w1 of
               Inl e \<Rightarrow>
                 fsys (snd (clear_module_dir ''samtools/sort'' ?d samtools_world)) = fsys ?w1 \<and>
                 Log Debug (Parent_directory_not_empty (dirname ?d))
                   \<in> set (trace (snd (clear_module_dir ''samtools/sort'' ?d samtools_world)))
             | Inr w2 \<Rightarrow>
                 fsys (snd (clear_module_dir ''samtools/sort'' ?d samtools_world)) = fsys w2 \<and>
                 \<not> os_path_exists (snd (clear_module_dir ''samtools/sort'' ?d samtools_world))
                     (dirname ?d)" by blast
  then have c: "Log Debug (Parent_directory_not_empty (dirname ?d))
                   \<in> set (trace (snd (clear_module_dir ''samtools/sort'' ?d samtools_world)))"
    unfolding h3 by simp
  show ?thesis using i h2 h3 a b c by blast
qed

lemma os_makedirs_result:
  "os_makedirs s w = Inr w1 \<Longrightarrow>
   lookup (fsys w) (os_resolve (cwd w) s) = None \<and>
   fsys w1 = mkdirs (os_resolve (cwd w) s) (fsys w) \<and> cwd w1 = cwd w \<and> trace w1 = trace w"
  by (auto simp: os_makedirs_def on_fs_def makedirs_at_def split: if_splits sum.splits)

lemma os_makedirs_error: "os_makedirs s w = Inl e \<Longrightarrow> \<exists>k. e = OSError k"
  by (auto simp: os_makedirs_def on_fs_def makedirs_at_def split: if_splits sum.splits)

lemma write_file_result:
  "write_file s c w = Inr w2 \<Longrightarrow>
   \<not> is_dir (fsys w) (os_resolve (cwd w) s) \<and>
   fsys w2 = (os_resolve (cwd w) s, File c) # filter (\<lambda>(q, n). q \<noteq> os_resolve (cwd w) s) (fsys w)"
  by (auto simp: write_file_def on_fs_def write_at_def split: if_splits sum.splits)

lemma lookup_after_write:
  "d \<noteq> p \<Longrightarrow> lookup ((p, File c) # filter (\<lambda>(q, n). q \<noteq> p) fs) d = lookup fs d"
  using map_of_filter_other [of "\<lambda>q. q \<noteq> p" d fs] by (simp add: lookup_def)

text \<open>
  C7: \<open>download_gh_file\<close> creates the missing directory of the destination before it asks
  for the file. On a status other than 200 it fails, with the \<open>LookupError\<close> of the download
  or, when the directory could not be made, with the \<open>OSError\<close> of \<open>os.makedirs\<close> and an
  unchanged world; in both cases the files of the file system are exactly those of before,
  so no destination file, empty or not, is written.
\<close>

theorem download_failure_writes_nothing:
  "(\<forall>w1. \<not> os_path_exists w (dirname dl_filename) \<and> os_makedirs (dirname dl_filename) w = Inr w1
        \<longrightarrow> is_dir (fsys (snd (download_gh_file self dl_filename r w)))
              (os_resolve (cwd w) (dirname dl_filename)))
   \<and> (file_status r \<noteq> 200 \<longrightarrow>
        (fst (download_gh_file self dl_filename r w)
            = Inl (LookupError (Could_not_fetch_file (fullname self) (file_status r)))
         \<or> (\<exists>k. download_gh_file self dl_filename r w = (Inl (OSError k), w)))
        \<and> (\<forall>p c. lookup (fsys (snd (download_gh_file self dl_filename r w))) p = Some (File c)
                  \<longleftrightarrow> lookup (fsys w) p = Some (File c)))"
proof (intro conjI allI impI)
  fix w1
  assume a: "\<not> os_path_exists w (dirname dl_filename) \<and> os_makedirs (dirname dl_filename) w = Inr w1"
  let ?d = "os_resolve (cwd w) (dirname dl_filename)"
  have mk: "lookup (fsys w) ?d = None" "fsys w1 = mkdirs ?d (fsys w)" "cwd w1 = cwd w"
    using os_makedirs_result a by blast+
  have d1: "is_dir (fsys w1) ?d" unfolding is_dir_def mk(2) using mk(1) by (rule lookup_mkdirs_self)
  show "is_dir (fsys (snd (download_gh_file self dl_filename r w))) ?d"
  proof (cases "file_status r = 200 \<and> (\<exists>c w2. file_content r = Inr c \<and> write_file dl_filename c w1 = Inr w2)")
    case False
    then have "snd (download_gh_file self dl_filename r w) = w1"
      using a by (auto simp: download_gh_file_def Let_def split: sum.splits)
    then show ?thesis using d1 by simp
  next
    case True
    then obtain c w2 where c: "file_status r = 200" "file_content r = Inr c"
        "write_file dl_filename c w1 = Inr w2" by blast
    have s: "snd (download_gh_file self dl_filename r w) = w2"
      using a c by (simp add: download_gh_file_def Let_def)
    let ?p = "os_resolve (cwd w1) dl_filename"
    have wr: "\<not> is_dir (fsys w1) ?p"
        "fsys w2 = (?p, File c) # filter (\<lambda>(q, n). q \<noteq> ?p) (fsys w1)"
      using write_file_result [OF c(3)] by simp_all
    have "?d \<noteq> ?p" using wr(1) d1 by auto
    then have "lookup (fsys w2) ?d = lookup (fsys w1) ?d" unfolding wr(2) by (rule lookup_after_write)
    then show ?thesis using s d1 by (simp add: is_dir_def)
  qed
next
  assume st: "file_status r \<noteq> 200"
  show "fst (download_gh_file self dl_filename r w)
            = Inl (LookupError (Could_not_fetch_file (fullname self) (file_status r)))
         \<or> (\<exists>k. download_gh_file self dl_filename r w = (Inl (OSError k), w))"
    using st os_makedirs_error [of "dirname dl_filename" w]
    by (auto simp: download_gh_file_def Let_def split: sum.splits)
next
  fix p c
  assume st: "file_status r \<noteq> 200"
  show "lookup (fsys (snd (download_gh_file self dl_filename r w))) p = Some (File c)
          \<longleftrightarrow> lookup (fsys w) p = Some (File c)"
  proof (cases "\<not> os_path_exists w (dirname dl_filename)")
    case False
    then show ?thesis using st by (simp add: download_gh_file_def Let_def)
  next
    case True
    show ?thesis
    proof (cases "os_makedirs (dirname dl_filename) w")
      case (Inl e)
      then show ?thesis using st True by (simp add: download_gh_file_def Let_def)
    next
      case (Inr w1)
      then have "fsys w1 = mkdirs (os_resolve (cwd w) (dirname dl_filename)) (fsys w)"
        using os_makedirs_result by blast
      then show ?thesis using st True Inr lookup_mkdirs_file
        by (simp add: download_gh_file_def Let_def)
    qed
  qed
qed

theorem download_failure_writes_nothing_witness:
  "file_status not_found_response \<noteq> 200
   \<and> \<not> os_path_exists local_world (dirname ''modules/nf-core/fastqc/main.nf'')
   \<and> \<not> isl (os_makedirs (dirname ''modules/nf-core/fastqc/main.nf'') local_world)
   \<and> fst (download_gh_file fresh_listing ''modules/nf-core/fastqc/main.nf'' not_found_response
            local_world) = Inl (LookupError (Could_not_fetch_file ''nf-core/modules'' 404))
   \<and> lookup (fsys (snd (download_gh_file fresh_listing ''modules/nf-core/fastqc/main.nf''
                          not_found_response local_world)))
        [''work'', ''pipe'', ''modules'', ''nf-core'', ''fastqc'', ''main.nf'']
       \<noteq> Some (File [])
   \<and> is_dir (fsys (snd (download_gh_file fresh_listing ''modules/nf-core/fastqc/main.nf''
                          not_found_response local_world)))
        (os_resolve (cwd local_world) (dirname ''modules/nf-core/fastqc/main.nf''))"
proof -
  let ?f = "''modules/nf-core/fastqc/main.nf''"
  let ?w1 = "projr (os_makedirs (dirname ?f) local_world)"
  have h1: "file_status not_found_response \<noteq> 200" by code_simp
  have h2: "\<not> os_path_exists local_world (dirname ?f)" by code_simp
  have i: "\<not> isl (os_makedirs (dirname ?f) local_world)" by code_simp
  then have h3: "os_makedirs (dirname ?f) local_world = Inr ?w1" by simp
  have h4: "fst (download_gh_file fresh_listing ?f not_found_response local_world)
              = Inl (LookupError (Could_not_fetch_file ''nf-core/modules'' 404))" by code_simp
  have h5: "lookup (fsys local_world)
              [''work'', ''pipe'', ''modules'', ''nf-core'', ''fastqc'', ''main.nf'']
            \<noteq> Some (File [])" by code_simp
  note t = download_failure_writes_nothing [of local_world ?f fresh_listing not_found_response]
  from t h2 h3 have d: "is_dir (fsys (snd (download_gh_file fresh_listing ?f not_found_response
                          local_world))) (os_resolve (cwd local_world) (dirname ?f))" by blast
  from t h1 h5 have n: "lookup (fsys (snd (download_gh_file fresh_listing ?f
                          not_found_response local_world)))
        [''work'', ''pipe'', ''modules'', ''nf-core'', ''fastqc'', ''main.nf'']
       \<noteq> Some (File [])" by blast
  show ?thesis using h1 h2 i h4 d n by blast
qed

section \<open>Properties of the moves\<close>

text \<open>Paths that stay below their base.\<close>

lemma fold_resolve_step_prefix:
  "''..'' \<notin> set segs \<Longrightarrow> prefix base (fold resolve_step segs base)"
proof (induction segs arbitrary: base)
  case Nil
  then show ?case by simp
next
  case (Cons x segs)
  have "x \<noteq> ''..''" using Cons.prems by auto
  then have "prefix base (resolve_step x base)" by (simp add: resolve_step_def)
  moreover have "prefix (resolve_step x base) (fold resolve_step segs (resolve_step x base))"
    using Cons by simp
  ultimately show ?case by (metis fold_simps(2) prefix_order.order_trans)
qed

lemma os_resolve_below:
  "\<not> startswith s ''/'' \<Longrightarrow> ''..'' \<notin> set (split_chr CHR ''/'' s) \<Longrightarrow>
   prefix base (os_resolve base s)"
  by (simp add: os_resolve_def fold_resolve_step_prefix)


text \<open>Tables under a change of keys, and tidy tables.\<close>

lemma map_of_rekey:
  "(\<forall>k \<in> fst ` set xs. g k = g k0 \<longrightarrow> k = k0) \<Longrightarrow>
   map_of (map (\<lambda>(k, v). (g k, v)) xs) (g k0) = map_of xs k0"
  by (induction xs) auto

lemma map_of_rekey_None:
  "(\<forall>k \<in> fst ` set xs. g k \<noteq> q) \<Longrightarrow> map_of (map (\<lambda>(k, v). (g k, v)) xs) q = None"
  by (induction xs) auto

lemma strict_prefix_butlast: "strict_prefix d q \<Longrightarrow> prefix d (butlast q)"
proof -
  assume "strict_prefix d q"
  then obtain zs where zs: "q = d @ zs" "zs \<noteq> []" by (auto simp: strict_prefix_def prefix_def)
  then have "butlast q = d @ butlast zs" by (simp add: butlast_append)
  then show ?thesis by simp
qed

lemma tidy_iff:
  "tidy t \<longleftrightarrow>
     (\<forall>q n p. (q, n) \<in> set t \<and> prefix p (butlast q) \<and> p \<noteq> [] \<longrightarrow> map_of t p = Some Dir)"
  by (auto simp: tidy_def list_all_iff Ball_def in_set_prefixes)

lemma tidy_parent:
  "tidy t \<Longrightarrow> (q, n) \<in> set t \<Longrightarrow> prefix p (butlast q) \<Longrightarrow> p \<noteq> [] \<Longrightarrow> map_of t p = Some Dir"
  by (auto simp: tidy_iff)

lemma tidy_no_orphan:
  "tidy t \<Longrightarrow> map_of t d \<noteq> Some Dir \<Longrightarrow> d \<noteq> [] \<Longrightarrow> (q, n) \<in> set t \<Longrightarrow> \<not> strict_prefix d q"
  using tidy_parent strict_prefix_butlast by blast

lemma key_present: "k \<in> fst ` set t \<Longrightarrow> map_of t k \<noteq> None"
  by (simp add: map_of_eq_None_iff)

lemma tidy_nothing_below:
  assumes "tidy t" and "map_of t d = None" and "d \<noteq> []" and "k \<in> fst ` set t"
  shows "\<not> prefix d k"
proof
  assume pre: "prefix d k"
  from assms(4) obtain n where kn: "(k, n) \<in> set t" by auto
  from assms(4) have "map_of t k \<noteq> None" by (rule key_present)
  with assms(2) have "k \<noteq> d" by auto
  with pre have sp: "strict_prefix d k" by (simp add: strict_prefix_def)
  from assms(2) have nd: "map_of t d \<noteq> Some Dir" by simp
  from tidy_no_orphan [OF assms(1) nd assms(3) kn] sp show False by simp
qed

lemma keys_mkdirs:
  "k \<in> fst ` set (mkdirs P t) \<Longrightarrow> k \<in> fst ` set t \<or> (prefix k P \<and> k \<noteq> [] \<and> map_of t k = None)"
  by (auto simp: mkdirs_def in_set_prefixes)

lemma map_of_dir_entries:
  "map_of (map (\<lambda>q. (q, Dir)) qs) x = (if x \<in> set qs then Some Dir else None)"
  by (induction qs) auto

lemma map_of_mkdirs:
  "map_of (mkdirs P t) x =
     (case map_of t x of Some v \<Rightarrow> Some v
      | None \<Rightarrow> if prefix x P \<and> x \<noteq> [] then Some Dir else None)"
proof (cases "map_of t x")
  case (Some v)
  then show ?thesis by (simp add: mkdirs_def map_add_def)
next
  case None
  then show ?thesis by (simp add: mkdirs_def map_add_def map_of_dir_entries in_set_prefixes)
qed

lemma reroot_rekey:
  "reroot src dst t = map (\<lambda>(k, v). ((if prefix src k then dst @ drop (length src) k else k), v)) t"
  by (auto simp: reroot_def)

lemma map_of_reroot_moved:
  assumes "\<forall>k \<in> fst ` set t. \<not> prefix dst k"
  shows "map_of (reroot src dst t) (dst @ r) = map_of t (src @ r)"
proof -
  let ?g = "\<lambda>k. if prefix src k then dst @ drop (length src) k else k"
  have inj: "\<forall>k \<in> fst ` set t. ?g k = ?g (src @ r) \<longrightarrow> k = src @ r"
  proof (intro ballI impI)
    fix k assume k: "k \<in> fst ` set t" and e: "?g k = ?g (src @ r)"
    show "k = src @ r"
    proof (cases "prefix src k")
      case True
      then obtain z where "k = src @ z" by (auto simp: prefix_def)
      with e show ?thesis by simp
    next
      case False
      with e have "k = dst @ r" by simp
      then have "prefix dst k" by simp
      with assms k show ?thesis by blast
    qed
  qed
  have "map_of (map (\<lambda>(k, v). (?g k, v)) t) (?g (src @ r)) = map_of t (src @ r)"
    using inj by (rule map_of_rekey)
  then show ?thesis unfolding reroot_rekey by simp
qed

lemma map_of_reroot_source:
  assumes "\<not> prefix src dst" and "\<not> prefix dst src"
  shows "map_of (reroot src dst t) (src @ r) = None"
proof -
  let ?g = "\<lambda>k. if prefix src k then dst @ drop (length src) k else k"
  have ne: "\<forall>k \<in> fst ` set t. ?g k \<noteq> src @ r"
  proof
    fix k assume "k \<in> fst ` set t"
    show "?g k \<noteq> src @ r"
    proof (cases "prefix src k")
      case True
      have "dst @ drop (length src) k \<noteq> src @ r"
      proof
        assume "dst @ drop (length src) k = src @ r"
        then have "prefix dst (src @ r)" by (metis prefixI)
        then have "prefix dst src \<or> prefix src dst"
          by (metis prefix_same_cases prefixI)
        with assms show False by blast
      qed
      with True show ?thesis by simp
    next
      case False
      then have "k \<noteq> src @ r" by auto
      with False show ?thesis by simp
    qed
  qed
  have "map_of (map (\<lambda>(k, v). (?g k, v)) t) (src @ r) = None"
    using ne by (rule map_of_rekey_None)
  then show ?thesis unfolding reroot_rekey by simp
qed

lemma map_of_reroot_other:
  assumes "\<not> prefix src p" and "\<not> prefix dst p"
  shows "map_of (reroot src dst t) p = map_of t p"
proof -
  let ?g = "\<lambda>k. if prefix src k then dst @ drop (length src) k else k"
  have gp: "?g p = p" using assms(1) by simp
  have inj: "\<forall>k \<in> fst ` set t. ?g k = ?g p \<longrightarrow> k = p"
  proof (intro ballI impI)
    fix k assume "k \<in> fst ` set t" and e: "?g k = ?g p"
    show "k = p"
    proof (cases "prefix src k")
      case True
      with e gp have "dst @ drop (length src) k = p" by simp
      then have "prefix dst p" by (metis prefixI)
      with assms(2) show ?thesis by blast
    next
      case False
      with e gp show ?thesis by simp
    qed
  qed
  have "map_of (map (\<lambda>(k, v). (?g k, v)) t) (?g p) = map_of t p"
    using inj by (rule map_of_rekey)
  then show ?thesis unfolding reroot_rekey using gp by simp
qed

lemma lookup_nonempty: "p \<noteq> [] \<Longrightarrow> lookup t p = map_of t p"
  by (simp add: lookup_def)

lemma is_dir_root: "is_dir t []"
  by (simp add: is_dir_def lookup_def)

lemma tidy_above_is_dir:
  assumes "tidy t" and "lookup t q \<noteq> None" and "prefix p q"
  shows "is_dir t p \<or> p = q"
proof (cases "p = [] \<or> p = q")
  case True
  then show ?thesis using is_dir_root by auto
next
  case False
  then have p: "p \<noteq> []" "p \<noteq> q" by auto
  then have q: "q \<noteq> []" using assms(3) by auto
  then obtain n where "map_of t q = Some n" using assms(2) by (auto simp: lookup_def)
  then have mem: "(q, n) \<in> set t" by (rule map_of_SomeD)
  have "strict_prefix p q" using assms(3) p(2) by (simp add: strict_prefix_def)
  then have "prefix p (butlast q)" by (rule strict_prefix_butlast)
  from tidy_parent [OF assms(1) mem this p(1)] show ?thesis
    using p(1) by (simp add: is_dir_def lookup_def)
qed

text \<open>What a successful move between two different paths has checked.\<close>

lemma move_at_Inr:
  assumes mv: "move_at src dst t = Inr t'" and ne: "dst \<noteq> src"
    and rd: "rd = (if is_dir t dst then dst @ [last src] else dst)"
  shows "src \<noteq> []" and "lookup t src \<noteq> None" and "is_dir t dst \<Longrightarrow> lookup t rd = None"
    and "is_dir t src \<Longrightarrow>
           \<not> prefix src rd \<and> lookup t rd = None \<and> \<not> list_ex (is_file t) (prefixes rd) \<and>
           t' = reroot src rd (mkdirs (butlast rd) t)"
    and "\<not> is_dir t src \<Longrightarrow>
           \<not> list_ex (is_file t) (prefixes (butlast rd)) \<and> is_dir t (butlast rd) \<and>
           t' = reroot src rd (remove_tree rd t)"
proof -
  show s0: "src \<noteq> []" using mv by (auto simp: move_at_def split: if_splits)
  have "move_at src dst t =
          (if is_dir t dst \<and> lookup t rd \<noteq> None then Inl ShutilError
           else if lookup t src = None then Inl (OSError (missing_errno t src))
           else if is_dir t src then
             (if prefix src rd then Inl ShutilError
              else if lookup t rd \<noteq> None then Inl (OSError EEXIST)
              else if list_ex (is_file t) (prefixes rd) then Inl (OSError ENOTDIR)
              else Inr (reroot src rd (mkdirs (butlast rd) t)))
           else
             (if list_ex (is_file t) (prefixes (butlast rd)) then Inl (OSError ENOTDIR)
              else if \<not> is_dir t (butlast rd) then Inl (OSError ENOENT)
              else Inr (reroot src rd (remove_tree rd t))))"
    using ne s0 unfolding move_at_def Let_def rd by simp
  then have body: "(if is_dir t dst \<and> lookup t rd \<noteq> None then Inl ShutilError
               else if lookup t src = None then Inl (OSError (missing_errno t src))
               else if is_dir t src then
                 (if prefix src rd then Inl ShutilError
                  else if lookup t rd \<noteq> None then Inl (OSError EEXIST)
                  else if list_ex (is_file t) (prefixes rd) then Inl (OSError ENOTDIR)
                  else Inr (reroot src rd (mkdirs (butlast rd) t)))
               else
                 (if list_ex (is_file t) (prefixes (butlast rd)) then Inl (OSError ENOTDIR)
                  else if \<not> is_dir t (butlast rd) then Inl (OSError ENOENT)
                  else Inr (reroot src rd (remove_tree rd t)))) = Inr t'"
    using mv by simp
  show "lookup t src \<noteq> None" using body by (auto split: if_splits)
  show "lookup t rd = None" if "is_dir t dst" using body that by (auto split: if_splits)
  show "\<not> prefix src rd \<and> lookup t rd = None \<and> \<not> list_ex (is_file t) (prefixes rd) \<and>
        t' = reroot src rd (mkdirs (butlast rd) t)" if "is_dir t src"
    using body that by (auto split: if_splits)
  show "\<not> list_ex (is_file t) (prefixes (butlast rd)) \<and> is_dir t (butlast rd) \<and>
        t' = reroot src rd (remove_tree rd t)" if "\<not> is_dir t src"
    using body that by (auto split: if_splits)
qed

lemma move_at_checked:
  assumes mv: "move_at src dst t = Inr t'" and ne: "dst \<noteq> src" and tidy: "tidy t"
    and rd: "rd = (if is_dir t dst then dst @ [last src] else dst)"
  shows "src \<noteq> []" and "lookup t src \<noteq> None" and "rd \<noteq> []" and "\<not> is_dir t rd"
    and "rd \<noteq> src" and "\<not> prefix rd src" and "\<not> prefix src rd"
proof -
  note c = move_at_Inr [OF mv ne rd]
  show s0: "src \<noteq> []" by (rule c(1))
  show s1: "lookup t src \<noteq> None" by (rule c(2))
  show r0: "rd \<noteq> []" using rd is_dir_root by (auto split: if_splits)
  show r1: "\<not> is_dir t rd"
  proof (cases "is_dir t dst")
    case True
    then have "lookup t rd = None" by (rule c(3))
    then show ?thesis by (simp add: is_dir_def)
  next
    case False
    then show ?thesis using rd by simp
  qed
  show r2: "rd \<noteq> src"
  proof (cases "is_dir t dst")
    case True
    then have "lookup t rd = None" by (rule c(3))
    then show ?thesis using s1 by auto
  next
    case False
    then show ?thesis using rd ne by simp
  qed
  show "\<not> prefix rd src"
  proof
    assume "prefix rd src"
    from tidy_above_is_dir [OF tidy s1 this] r1 r2 show False by simp
  qed
  show "\<not> prefix src rd"
  proof (cases "is_dir t src")
    case True
    then show ?thesis using c(4) by simp
  next
    case False
    then have par: "is_dir t (butlast rd)" using c(5) by simp
    show ?thesis
    proof
      assume "prefix src rd"
      then have "strict_prefix src rd" using r2 by (simp add: strict_prefix_def)
      then have "prefix src (butlast rd)" by (rule strict_prefix_butlast)
      moreover have "lookup t (butlast rd) \<noteq> None" using par by (simp add: is_dir_def)
      ultimately have "is_dir t src \<or> src = butlast rd" using tidy tidy_above_is_dir by blast
      then show False using False par by auto
    qed
  qed
qed

lemma not_below_parent: "rd \<noteq> [] \<Longrightarrow> prefix rd k \<Longrightarrow> \<not> prefix k (butlast rd)"
proof
  assume a: "rd \<noteq> []" "prefix rd k" "prefix k (butlast rd)"
  have "length rd \<le> length k" using a(2) by (rule prefix_length_le)
  moreover have "length k \<le> length (butlast rd)" using a(3) by (rule prefix_length_le)
  moreover have "length (butlast rd) < length rd" using a(1) by simp
  ultimately show False by simp
qed

text \<open>
  The table that the move re-roots: the one with the parents of the target made, for a
  directory, and the one without the replaced file, for a file.
\<close>

lemma move_at_table:
  assumes mv: "move_at src dst t = Inr t'" and ne: "dst \<noteq> src" and tidy: "tidy t"
    and rd: "rd = (if is_dir t dst then dst @ [last src] else dst)"
  shows "\<exists>u. t' = reroot src rd u
             \<and> (\<forall>k \<in> fst ` set u. \<not> prefix rd k)
             \<and> (\<forall>r. map_of u (src @ r) = map_of t (src @ r))
             \<and> (\<forall>p. \<not> prefix rd p \<and> map_of t p \<noteq> None \<longrightarrow> map_of u p = map_of t p)"
proof -
  note c = move_at_checked [OF mv ne tidy rd]
  have both: "\<And>r. \<not> prefix rd (src @ r)"
  proof
    fix r assume "prefix rd (src @ r)"
    then have "prefix rd src \<or> prefix src rd" by (metis prefix_same_cases prefixI)
    then show False using c(6,7) by blast
  qed
  show ?thesis
  proof (cases "is_dir t src")
    case True
    let ?u = "mkdirs (butlast rd) t"
    have t': "t' = reroot src rd ?u" and none: "lookup t rd = None"
      using move_at_Inr(4) [OF mv ne rd True] by simp_all
    have mn: "map_of t rd = None" using none c(3) by (simp add: lookup_def)
    have k: "\<forall>k \<in> fst ` set ?u. \<not> prefix rd k"
    proof
      fix k assume "k \<in> fst ` set ?u"
      then have "k \<in> fst ` set t \<or> (prefix k (butlast rd) \<and> k \<noteq> [] \<and> map_of t k = None)"
        by (rule keys_mkdirs)
      then show "\<not> prefix rd k"
      proof
        assume "k \<in> fst ` set t"
        with tidy mn c(3) show ?thesis by (rule tidy_nothing_below)
      next
        assume "prefix k (butlast rd) \<and> k \<noteq> [] \<and> map_of t k = None"
        then show ?thesis using not_below_parent [OF c(3)] by blast
      qed
    qed
    have s: "\<forall>r. map_of ?u (src @ r) = map_of t (src @ r)"
    proof
      fix r
      have "\<not> prefix (src @ r) (butlast rd)"
      proof
        assume "prefix (src @ r) (butlast rd)"
        then have "prefix src rd"
          by (metis append_prefixD prefix_order.order_trans prefixeq_butlast)
        then show False using c(7) by simp
      qed
      then show "map_of ?u (src @ r) = map_of t (src @ r)"
        by (simp add: map_of_mkdirs split: option.splits)
    qed
    have o: "\<forall>p. \<not> prefix rd p \<and> map_of t p \<noteq> None \<longrightarrow> map_of ?u p = map_of t p"
      by (auto simp: map_of_mkdirs split: option.splits)
    show ?thesis using t' k s o by blast
  next
    case False
    let ?u = "remove_tree rd t"
    have t': "t' = reroot src rd ?u"
      using move_at_Inr(5) [OF mv ne rd False] by simp
    have k: "\<forall>k \<in> fst ` set ?u. \<not> prefix rd k" by (auto simp: remove_tree_def)
    have keep: "\<And>p. \<not> prefix rd p \<Longrightarrow> map_of ?u p = map_of t p"
      unfolding remove_tree_def by (rule map_of_filter_other)
    have s: "\<forall>r. map_of ?u (src @ r) = map_of t (src @ r)" using keep both by blast
    have o: "\<forall>p. \<not> prefix rd p \<and> map_of t p \<noteq> None \<longrightarrow> map_of ?u p = map_of t p"
      using keep by blast
    show ?thesis using t' k s o by blast
  qed
qed

text \<open>The effect of \<open>shutil.move\<close> on the table, read path by path.\<close>

lemma move_at_lookups:
  assumes mv: "move_at src dst t = Inr t'" and ne: "dst \<noteq> src" and tidy: "tidy t"
    and rd: "rd = (if is_dir t dst then dst @ [last src] else dst)"
  shows "lookup t' (rd @ r) = lookup t (src @ r)"
    and "lookup t' (src @ r) = None"
    and "\<not> prefix src p \<Longrightarrow> \<not> prefix rd p \<Longrightarrow> lookup t p \<noteq> None \<Longrightarrow> lookup t' p = lookup t p"
proof -
  note c = move_at_checked [OF mv ne tidy rd]
  from move_at_table [OF mv ne tidy rd] obtain u where
    u: "t' = reroot src rd u" "\<forall>k \<in> fst ` set u. \<not> prefix rd k"
       "\<forall>r. map_of u (src @ r) = map_of t (src @ r)"
       "\<forall>p. \<not> prefix rd p \<and> map_of t p \<noteq> None \<longrightarrow> map_of u p = map_of t p"
    by blast
  show "lookup t' (rd @ r) = lookup t (src @ r)"
    using map_of_reroot_moved [OF u(2), of src r] u(1,3) c(1,3) by (simp add: lookup_def)
  show "lookup t' (src @ r) = None"
    using map_of_reroot_source [OF c(7,6), of u r] u(1) c(1) by (simp add: lookup_def)
  show "lookup t' p = lookup t p"
    if a: "\<not> prefix src p" "\<not> prefix rd p" "lookup t p \<noteq> None"
  proof (cases "p = []")
    case True
    then show ?thesis by (simp add: lookup_def)
  next
    case False
    then have "map_of t p \<noteq> None" using a(3) by (simp add: lookup_def)
    then have "map_of u p = map_of t p" using u(4) a(2) by blast
    then show ?thesis using map_of_reroot_other [OF a(1,2), of u] u(1) False
      by (simp add: lookup_def)
  qed
qed

lemma not_file_dir: "\<not> is_file t p \<Longrightarrow> p \<noteq> [] \<Longrightarrow> map_of t p = Some v \<Longrightarrow> v = Dir"
  by (cases v) (auto simp: is_file_def lookup_def)

lemma tidy_mkdirs:
  assumes tidy: "tidy t" and nf: "\<forall>p. prefix p P \<longrightarrow> \<not> is_file t p"
  shows "tidy (mkdirs P t)"
  unfolding tidy_iff
proof (intro allI impI)
  fix q n p
  assume a: "(q, n) \<in> set (mkdirs P t) \<and> prefix p (butlast q) \<and> p \<noteq> []"
  then have "(q, n) \<in> set t \<or> (prefix q P \<and> q \<noteq> [] \<and> map_of t q = None)"
    by (auto simp: mkdirs_def in_set_prefixes)
  then show "map_of (mkdirs P t) p = Some Dir"
  proof
    assume "(q, n) \<in> set t"
    then have "map_of t p = Some Dir" using tidy a tidy_parent by blast
    then show ?thesis by (simp add: map_of_mkdirs)
  next
    assume b: "prefix q P \<and> q \<noteq> [] \<and> map_of t q = None"
    have "prefix p q" using a by (meson prefix_order.order_trans prefixeq_butlast)
    then have pP: "prefix p P" using b by (meson prefix_order.order_trans)
    then have "\<not> is_file t p" using nf by blast
    then have "\<And>v. map_of t p = Some v \<Longrightarrow> v = Dir" using a not_file_dir by blast
    then show ?thesis using pP a by (auto simp: map_of_mkdirs split: option.splits)
  qed
qed

lemma tidy_remove_tree:
  assumes tidy: "tidy t"
  shows "tidy (remove_tree rd t)"
  unfolding tidy_iff
proof (intro allI impI)
  fix q n p
  assume a: "(q, n) \<in> set (remove_tree rd t) \<and> prefix p (butlast q) \<and> p \<noteq> []"
  then have q: "(q, n) \<in> set t" "\<not> prefix rd q" by (auto simp: remove_tree_def)
  have "prefix p q" using a by (meson prefix_order.order_trans prefixeq_butlast)
  then have "\<not> prefix rd p" using q(2) by (meson prefix_order.order_trans)
  then have "map_of (remove_tree rd t) p = map_of t p"
    unfolding remove_tree_def by (rule map_of_filter_other)
  then show "map_of (remove_tree rd t) p = Some Dir" using tidy q(1) a tidy_parent by metis
qed

lemma tidy_reroot:
  assumes tidy: "tidy u" and free: "\<forall>k \<in> fst ` set u. \<not> prefix rd k"
    and rd: "rd \<noteq> []" and src: "src \<noteq> []" and out: "\<not> prefix src rd"
    and anc: "\<forall>p. prefix p (butlast rd) \<and> p \<noteq> [] \<longrightarrow> map_of u p = Some Dir"
  shows "tidy (reroot src rd u)"
  unfolding tidy_iff
proof (intro allI impI)
  fix q' n p
  assume a: "(q', n) \<in> set (reroot src rd u) \<and> prefix p (butlast q') \<and> p \<noteq> []"
  then obtain q where q: "(q, n) \<in> set u"
      "q' = (if prefix src q then rd @ drop (length src) q else q)"
    by (auto simp: reroot_def split: if_splits)
  have key: "q \<in> fst ` set u" using q(1) by force
  have p0: "p \<noteq> []" using a by simp
  have above: "map_of (reroot src rd u) p = Some Dir" if p: "prefix p (butlast rd)"
  proof -
    have "\<not> prefix src p"
      using p out by (meson prefix_order.order_trans prefixeq_butlast)
    moreover have "\<not> prefix rd p" using not_below_parent [OF rd] p by blast
    ultimately have "map_of (reroot src rd u) p = map_of u p" by (rule map_of_reroot_other)
    then show ?thesis using anc p p0 by simp
  qed
  have below: "map_of (reroot src rd u) p = Some Dir"
    if p: "p = rd @ us" and us: "prefix (src @ us) (butlast q)" for us
  proof -
    have "map_of (reroot src rd u) (rd @ us) = map_of u (src @ us)"
      using free by (rule map_of_reroot_moved)
    moreover have "map_of u (src @ us) = Some Dir"
      using tidy_parent [OF tidy q(1) us] src by simp
    ultimately show ?thesis using p by simp
  qed
  show "map_of (reroot src rd u) p = Some Dir"
  proof (cases "prefix src q")
    case True
    then obtain z where z: "q = src @ z" by (auto simp: prefix_def)
    then have q': "q' = rd @ z" using q(2) by simp
    show ?thesis
    proof (cases "z = []")
      case True
      then have "prefix p (butlast rd)" using a q' by simp
      then show ?thesis by (rule above)
    next
      case False
      then have bq: "butlast q = src @ butlast z" and bq': "butlast q' = rd @ butlast z"
        using z q' by (simp_all add: butlast_append)
      have "prefix p (rd @ butlast z)" using a bq' by simp
      then have "prefix p rd \<or> (\<exists>us. p = rd @ us \<and> prefix us (butlast z))"
        by (simp add: prefix_append)
      then show ?thesis
      proof
        assume pr: "prefix p rd"
        show ?thesis
        proof (cases "p = rd")
          case True
          then have "p = rd @ []" by simp
          moreover have "prefix (src @ []) (butlast q)" using bq by simp
          ultimately show ?thesis by (rule below)
        next
          case False
          then have "strict_prefix p rd" using pr by (simp add: strict_prefix_def)
          then have "prefix p (butlast rd)" by (rule strict_prefix_butlast)
          then show ?thesis by (rule above)
        qed
      next
        assume "\<exists>us. p = rd @ us \<and> prefix us (butlast z)"
        then obtain us where us: "p = rd @ us" "prefix us (butlast z)" by blast
        have "prefix (src @ us) (butlast q)" using us(2) bq by simp
        with us(1) show ?thesis by (rule below)
      qed
    qed
  next
    case False
    then have q': "q' = q" using q(2) by simp
    have pq: "prefix p q" using a q' by (meson prefix_order.order_trans prefixeq_butlast)
    have "\<not> prefix src p" using False pq by (meson prefix_order.order_trans)
    moreover have "\<not> prefix rd p" using free key pq by (meson prefix_order.order_trans)
    ultimately have "map_of (reroot src rd u) p = map_of u p" by (rule map_of_reroot_other)
    moreover have "map_of u p = Some Dir" using tidy_parent [OF tidy q(1)] a q' by simp
    ultimately show ?thesis by simp
  qed
qed

text \<open>A move keeps the table tidy.\<close>

lemma move_at_tidy:
  assumes mv: "move_at src dst t = Inr t'" and tidy: "tidy t"
  shows "tidy t'"
proof (cases "dst = src")
  case True
  then have "t' = t" using mv by (auto simp: move_at_def Let_def split: if_splits)
  then show ?thesis using tidy by simp
next
  case ne: False
  define rd where "rd = (if is_dir t dst then dst @ [last src] else dst)"
  note c = move_at_checked [OF mv ne tidy rd_def]
  show ?thesis
  proof (cases "is_dir t src")
    case True
    let ?u = "mkdirs (butlast rd) t"
    have t': "t' = reroot src rd ?u" and none: "lookup t rd = None"
      and nf: "\<not> list_ex (is_file t) (prefixes rd)"
      using move_at_Inr(4) [OF mv ne rd_def True] by simp_all
    have nf': "\<forall>p. prefix p (butlast rd) \<longrightarrow> \<not> is_file t p"
    proof (intro allI impI)
      fix p assume "prefix p (butlast rd)"
      then have "prefix p rd" by (meson prefix_order.order_trans prefixeq_butlast)
      then show "\<not> is_file t p" using nf by (auto simp: list_ex_iff in_set_prefixes)
    qed
    have tu: "tidy ?u" using tidy nf' by (rule tidy_mkdirs)
    have mn: "map_of t rd = None" using none c(3) by (simp add: lookup_def)
    have free: "\<forall>k \<in> fst ` set ?u. \<not> prefix rd k"
    proof
      fix k assume "k \<in> fst ` set ?u"
      then have "k \<in> fst ` set t \<or> (prefix k (butlast rd) \<and> k \<noteq> [] \<and> map_of t k = None)"
        by (rule keys_mkdirs)
      then show "\<not> prefix rd k"
      proof
        assume "k \<in> fst ` set t"
        with tidy mn c(3) show ?thesis by (rule tidy_nothing_below)
      next
        assume "prefix k (butlast rd) \<and> k \<noteq> [] \<and> map_of t k = None"
        then show ?thesis using not_below_parent [OF c(3)] by blast
      qed
    qed
    have anc: "\<forall>p. prefix p (butlast rd) \<and> p \<noteq> [] \<longrightarrow> map_of ?u p = Some Dir"
    proof (intro allI impI)
      fix p assume p: "prefix p (butlast rd) \<and> p \<noteq> []"
      then have "\<not> is_file t p" using nf' by blast
      then have "\<And>v. map_of t p = Some v \<Longrightarrow> v = Dir" using p not_file_dir by blast
      then show "map_of ?u p = Some Dir" using p by (auto simp: map_of_mkdirs split: option.splits)
    qed
    show ?thesis unfolding t' using tu free c(3) c(1) c(7) anc by (rule tidy_reroot)
  next
    case False
    let ?u = "remove_tree rd t"
    have t': "t' = reroot src rd ?u" and par: "is_dir t (butlast rd)"
      using move_at_Inr(5) [OF mv ne rd_def False] by simp_all
    have tu: "tidy ?u" using tidy by (rule tidy_remove_tree)
    have free: "\<forall>k \<in> fst ` set ?u. \<not> prefix rd k" by (auto simp: remove_tree_def)
    have anc: "\<forall>p. prefix p (butlast rd) \<and> p \<noteq> [] \<longrightarrow> map_of ?u p = Some Dir"
    proof (intro allI impI)
      fix p assume p: "prefix p (butlast rd) \<and> p \<noteq> []"
      have "lookup t (butlast rd) \<noteq> None" using par by (simp add: is_dir_def)
      then have "is_dir t p \<or> p = butlast rd" using tidy tidy_above_is_dir p by blast
      then have "is_dir t p" using par by auto
      then have m: "map_of t p = Some Dir" using p by (simp add: is_dir_def lookup_def)
      have "\<not> prefix rd p" using not_below_parent [OF c(3)] p by blast
      then have "map_of ?u p = map_of t p"
        unfolding remove_tree_def by (rule map_of_filter_other)
      then show "map_of ?u p = Some Dir" using m by simp
    qed
    show ?thesis unfolding t' using tu free c(3) c(1) c(7) anc by (rule tidy_reroot)
  qed
qed

text \<open>One turn of the loop of moves, and the loop after the turns that succeeded.\<close>

lemma move_modules_step:
  "move_modules rp (m # post) w =
     (case move_at (cwd w @ [''modules''] @ m)
             (os_resolve (cwd w @ [''modules'']) rp @ drop 2 m) (fsys w) of
        Inl e \<Rightarrow> (Inl e, w)
      | Inr moved \<Rightarrow>
          move_modules rp post
            (emit (Log Info (Moved (cwd w @ [''modules''] @ m)
                               (os_resolve (cwd w @ [''modules'']) rp @ drop 2 m)))
               (w\<lparr>fsys := moved\<rparr>)))"
  by (simp add: Let_def on_fs_def wrong_dir_of_def correct_dir_of_def split: sum.splits)

lemma move_modules_keeps:
  "move_modules rp ms w = (r, w') \<Longrightarrow> tidy (fsys w) \<Longrightarrow> cwd w' = cwd w \<and> tidy (fsys w')"
proof (induction ms arbitrary: w)
  case Nil
  then show ?case by simp
next
  case (Cons m ms)
  let ?src = "cwd w @ [''modules''] @ m"
  let ?dst = "os_resolve (cwd w @ [''modules'']) rp @ drop 2 m"
  show ?case
  proof (cases "move_at ?src ?dst (fsys w)")
    case (Inl e)
    then have "w' = w" using Cons.prems(1)
      by (simp add: move_modules_step del: move_modules.simps)
    then show ?thesis using Cons.prems(2) by simp
  next
    case (Inr moved)
    let ?w1 = "emit (Log Info (Moved ?src ?dst)) (w\<lparr>fsys := moved\<rparr>)"
    have "move_modules rp ms ?w1 = (r, w')" using Cons.prems(1) Inr
      by (simp add: move_modules_step del: move_modules.simps)
    moreover have "tidy (fsys ?w1)"
      using move_at_tidy [OF Inr Cons.prems(2)] by (simp add: emit_def)
    ultimately have "cwd w' = cwd ?w1 \<and> tidy (fsys w')" by (rule Cons.IH)
    then show ?thesis by (simp add: emit_def)
  qed
qed

lemma move_modules_append:
  "move_modules rp pre w = (Inr (), w1) \<Longrightarrow>
   move_modules rp (pre @ rest) w = move_modules rp rest w1"
proof (induction pre arbitrary: w)
  case Nil
  then show ?case by simp
next
  case (Cons m pre)
  let ?src = "cwd w @ [''modules''] @ m"
  let ?dst = "os_resolve (cwd w @ [''modules'']) rp @ drop 2 m"
  show ?case
  proof (cases "move_at ?src ?dst (fsys w)")
    case (Inl e)
    then show ?thesis using Cons.prems
      by (simp add: move_modules_step del: move_modules.simps)
  next
    case (Inr moved)
    let ?w1 = "emit (Log Info (Moved ?src ?dst)) (w\<lparr>fsys := moved\<rparr>)"
    have "move_modules rp pre ?w1 = (Inr (), w1)" using Cons.prems Inr
      by (simp add: move_modules_step del: move_modules.simps)
    then have "move_modules rp (pre @ rest) ?w1 = move_modules rp rest w1" by (rule Cons.IH)
    then show ?thesis using Inr
      by (simp add: move_modules_step del: move_modules.simps)
  qed
qed

text \<open>The check, once components were found and the refresh went through.\<close>

lemma check_modules_structure_moves:
  assumes "repo_type self = Some ''pipeline''"
    and "find_wrong_location (modules_root_of self w)
           (os_walk (fsys w) (modules_root_of self w)) [] = Inr wrong"
    and "wrong \<noteq> []"
    and "setup_local_repo_impl ext (remote_url (modules_repo self))
           (tracked_branch (modules_repo self)) (hide_progress self) (fsys w) = Inr refreshed"
  shows "check_modules_structure ext self w =
     (case move_modules (repo_path (modules_repo self)) wrong (after_refresh self w refreshed) of
        (Inl e, w5) \<Rightarrow> (Inl e, w5)
      | (Inr u, w5) \<Rightarrow>
          (case on_fs (rmtree_at (os_resolve (modules_root_of self w)
                                    (repo_path (modules_repo self)) @ [''modules''])) w5 of
             Inl e \<Rightarrow> (Inl e, w5)
           | Inr w6 \<Rightarrow>
               (case on_fs (check_up_to_date_impl ext (dir self))
                       (emit (Call_check_up_to_date (dir self)) w6) of
                  Inl e \<Rightarrow> (Inl e, emit (Call_check_up_to_date (dir self)) w6)
                | Inr w8 \<Rightarrow> (Inr (), w8))))"
proof -
  let ?mr = "modules_repo self"
  let ?w3 = "emit (Call_setup_local_repo (remote_url ?mr) (tracked_branch ?mr) (hide_progress self))
               (emit (Log Info (Updating (local_repo_dir ?mr)))
                  (emit (Log Info Modules_structure_outdated) w))"
  have f3: "fsys ?w3 = fsys w" by (simp add: emit_def)
  have r: "on_fs (setup_local_repo_impl ext (remote_url ?mr) (tracked_branch ?mr)
                    (hide_progress self)) ?w3 = Inr (after_refresh self w refreshed)"
    unfolding on_fs_def f3 using assms(4) by (simp add: after_refresh_def)
  show ?thesis
    unfolding check_modules_structure_def Let_def r using assms(1,2,3) by simp
qed

text \<open>
  C9: every move of the structure migration works on paths built from the working directory.
  Let \<open>m\<close> be one of the components that the walk found, at \<open>dir/modules/m\<close>; it has at least two
  segments and the second is \<open>modules\<close>. Once the refresh went through and the moves before
  it succeeded, the loop calls \<open>shutil.move\<close> with the source \<open>cwd/modules/m\<close> and the
  destination \<open>cwd/modules/<repo_path>/m[2:]\<close>. If this move fails, the check fails with the
  same error and leaves the file system as the earlier moves made it. With nothing at the
  source it fails: with \<open>shutil.Error\<close> when the destination is a directory that holds the
  source's name, else with the error of the kernel for a missing path, \<open>ENOENT\<close> unless a
  regular file stands on the way. If the move succeeds, the loop goes on from the moved file
  system with the move logged, and when source and destination differ, the tree that was at
  the source is at the target afterwards (the destination, or the source's name inside it
  when the destination is a directory), nothing is left at the source, and every existing
  path outside source and target is as before. The source is the directory that the walk
  found exactly when the working directory is the project directory, and then, for a
  relative \<open>repo_path\<close> without \<open>..\<close>, the destination lies below the project's \<open>modules\<close>
  directory. The outcome of the check is that of the loop, followed by the removal of
  \<open>dir/modules/<repo_path>/modules\<close> and the check of the manifest.
\<close>

theorem moves_resolved_against_cwd:
  assumes pipeline: "repo_type self = Some ''pipeline''"
    and found: "find_wrong_location (modules_root_of self w)
                  (os_walk (fsys w) (modules_root_of self w)) [] = Inr (pre @ m # post)"
    and refresh: "setup_local_repo_impl ext (remote_url (modules_repo self))
                    (tracked_branch (modules_repo self)) (hide_progress self) (fsys w)
                  = Inr refreshed"
    and tidy: "tidy refreshed"
    and earlier: "move_modules (repo_path (modules_repo self)) pre
                    (after_refresh self w refreshed) = (Inr (), w_pre)"
    and src: "src = cwd w @ [''modules''] @ m"
    and dst: "dst = os_resolve (cwd w @ [''modules'']) (repo_path (modules_repo self)) @ drop 2 m"
    and target: "target = (if is_dir (fsys w_pre) dst then dst @ [last src] else dst)"
  shows "(\<exists>e \<in> set (os_walk (fsys w) (modules_root_of self w)).
            ''main.nf'' \<in> set (snd (snd e)) \<and>
            fst e = os_resolve (cwd w) (dir self) @ [''modules''] @ m)
       \<and> 2 \<le> length m \<and> m ! 1 = ''modules''
       \<and> (src = os_resolve (cwd w) (dir self) @ [''modules''] @ m
            \<longleftrightarrow> cwd w = os_resolve (cwd w) (dir self))
       \<and> (cwd w = os_resolve (cwd w) (dir self)
            \<and> \<not> startswith (repo_path (modules_repo self)) ''/''
            \<and> ''..'' \<notin> set (split_chr CHR ''/'' (repo_path (modules_repo self)))
            \<longrightarrow> prefix (modules_root_of self w) dst)
       \<and> (case move_at src dst (fsys w_pre) of
             Inl e \<Rightarrow> check_modules_structure ext self w = (Inl e, w_pre)
           | Inr moved \<Rightarrow>
               move_modules (repo_path (modules_repo self)) (pre @ m # post)
                 (after_refresh self w refreshed)
               = move_modules (repo_path (modules_repo self)) post
                   (emit (Log Info (Moved src dst)) (w_pre\<lparr>fsys := moved\<rparr>))
               \<and> (dst \<noteq> src \<longrightarrow>
                    (\<forall>r. lookup moved (target @ r) = lookup (fsys w_pre) (src @ r)
                          \<and> lookup moved (src @ r) = None)
                    \<and> (\<forall>p. \<not> prefix src p \<and> \<not> prefix target p
                              \<and> lookup (fsys w_pre) p \<noteq> None
                            \<longrightarrow> lookup moved p = lookup (fsys w_pre) p)))
       \<and> (lookup (fsys w_pre) src = None
            \<longrightarrow> check_modules_structure ext self w =
                  (Inl (if is_dir (fsys w_pre) dst \<and> lookup (fsys w_pre) target \<noteq> None
                        then ShutilError
                        else OSError (missing_errno (fsys w_pre) src)), w_pre))
       \<and> check_modules_structure ext self w =
           (case move_modules (repo_path (modules_repo self)) (pre @ m # post)
                   (after_refresh self w refreshed) of
              (Inl e, w5) \<Rightarrow> (Inl e, w5)
            | (Inr u, w5) \<Rightarrow>
                (case on_fs (rmtree_at (os_resolve (modules_root_of self w)
                                          (repo_path (modules_repo self)) @ [''modules''])) w5 of
                   Inl e \<Rightarrow> (Inl e, w5)
                 | Inr w6 \<Rightarrow>
                     (case on_fs (check_up_to_date_impl ext (dir self))
                             (emit (Call_check_up_to_date (dir self)) w6) of
                        Inl e \<Rightarrow> (Inl e, emit (Call_check_up_to_date (dir self)) w6)
                      | Inr w8 \<Rightarrow> (Inr (), w8))))"
    (is "?detected \<and> ?len \<and> ?second \<and> ?same \<and> ?below \<and> ?move \<and> ?missing \<and> ?whole")
proof -
  let ?root = "modules_root_of self w"
  let ?rp = "repo_path (modules_repo self)"
  let ?w4 = "after_refresh self w refreshed"
  have mem: "m \<in> set (pre @ m # post)" by simp
  from find_wrong_location_result [OF found] mem
  obtain e where e: "e \<in> set (os_walk (fsys w) ?root)" "''main.nf'' \<in> set (snd (snd e))"
      "legacy_located ?root (fst e)" "m = drop (length ?root) (fst e)"
    by auto
  have pre: "prefix ?root (fst e)" and len: "length ?root + 2 \<le> length (fst e)"
    and snd_seg: "fst e ! (length ?root + 1) = ''modules''"
    using e(3) by (simp_all add: legacy_located_def)
  have fe: "fst e = ?root @ m" using pre e(4) by (metis append_eq_conv_conj prefix_def)
  have detected: ?detected using e(1,2) fe by (auto simp: modules_root_of_def)
  have lm: ?len using len e(4) by simp
  have m1: ?second using snd_seg fe by (simp add: nth_append)
  have same: ?same using src by simp
  have below: ?below
  proof
    assume a: "cwd w = os_resolve (cwd w) (dir self)
                 \<and> \<not> startswith ?rp ''/''
                 \<and> ''..'' \<notin> set (split_chr CHR ''/'' ?rp)"
    then have "prefix (cwd w @ [''modules'']) (os_resolve (cwd w @ [''modules'']) ?rp)"
      using os_resolve_below by blast
    then have "prefix (cwd w @ [''modules'']) dst" unfolding dst by (rule prefix_prefix)
    then show "prefix ?root dst" using a by (simp add: modules_root_of_def)
  qed
  have whole: ?whole
    using pipeline found _ refresh by (rule check_modules_structure_moves) simp
  have t4: "tidy (fsys ?w4)" and c4: "cwd ?w4 = cwd w"
    using tidy by (simp_all add: after_refresh_def emit_def)
  from move_modules_keeps [OF earlier t4] c4
  have cw: "cwd w_pre = cwd w" and tw: "tidy (fsys w_pre)" by simp_all
  have run: "move_modules ?rp (pre @ m # post) ?w4 =
               (case move_at src dst (fsys w_pre) of
                  Inl e \<Rightarrow> (Inl e, w_pre)
                | Inr moved \<Rightarrow>
                    move_modules ?rp post
                      (emit (Log Info (Moved src dst)) (w_pre\<lparr>fsys := moved\<rparr>)))"
    unfolding move_modules_append [OF earlier] move_modules_step cw src dst ..
  have move: ?move
  proof (cases "move_at src dst (fsys w_pre)")
    case (Inl err)
    then have "move_modules ?rp (pre @ m # post) ?w4 = (Inl err, w_pre)" using run by simp
    then have "check_modules_structure ext self w = (Inl err, w_pre)" using whole by simp
    then show ?thesis using Inl by simp
  next
    case (Inr moved)
    have "dst \<noteq> src \<longrightarrow>
            (\<forall>r. lookup moved (target @ r) = lookup (fsys w_pre) (src @ r)
                  \<and> lookup moved (src @ r) = None)
            \<and> (\<forall>p. \<not> prefix src p \<and> \<not> prefix target p \<and> lookup (fsys w_pre) p \<noteq> None
                    \<longrightarrow> lookup moved p = lookup (fsys w_pre) p)"
      using move_at_lookups [OF Inr _ tw target] by blast
    then show ?thesis using Inr run by simp
  qed
  have missing: ?missing
  proof
    let ?err = "if is_dir (fsys w_pre) dst \<and> lookup (fsys w_pre) target \<noteq> None
                then ShutilError else OSError (missing_errno (fsys w_pre) src)"
    assume none: "lookup (fsys w_pre) src = None"
    have "src \<noteq> []" using src by simp
    moreover have "dst \<noteq> src" if "is_dir (fsys w_pre) dst"
      using that none by (auto simp: is_dir_def)
    ultimately have "move_at src dst (fsys w_pre) = Inl ?err"
      using none target by (auto simp: move_at_def Let_def)
    then have "move_modules ?rp (pre @ m # post) ?w4 = (Inl ?err, w_pre)"
      using run by simp
    then show "check_modules_structure ext self w = (Inl ?err, w_pre)"
      using whole by simp
  qed
  show ?thesis using detected lm m1 same below move missing whole by blast
qed

theorem moves_resolved_against_cwd_witness:
  "cwd two_trees_world \<noteq> os_resolve (cwd two_trees_world) (dir pipeline_command)
   \<and> find_wrong_location (modules_root_of pipeline_command two_trees_world)
        (os_walk (fsys two_trees_world) (modules_root_of pipeline_command two_trees_world)) []
      = Inr [[''nf-core'', ''modules'', ''fastqc'']]
   \<and> tidy (fsys two_trees_world)
   \<and> \<not> isl (move_at [''work'', ''other'', ''modules'', ''nf-core'', ''modules'', ''fastqc'']
                [''work'', ''other'', ''modules'', ''nf-core'', ''fastqc'']
                (fsys two_trees_world))
   \<and> (\<forall>r. lookup (projr (move_at [''work'', ''other'', ''modules'', ''nf-core'', ''modules'', ''fastqc'']
                             [''work'', ''other'', ''modules'', ''nf-core'', ''fastqc'']
                             (fsys two_trees_world)))
              ([''work'', ''other'', ''modules'', ''nf-core'', ''fastqc''] @ r)
            = lookup (fsys two_trees_world)
                ([''work'', ''other'', ''modules'', ''nf-core'', ''modules'', ''fastqc''] @ r))
   \<and> lookup (projr (move_at [''work'', ''other'', ''modules'', ''nf-core'', ''modules'', ''fastqc'']
                      [''work'', ''other'', ''modules'', ''nf-core'', ''fastqc'']
                      (fsys two_trees_world)))
        [''work'', ''pipe'', ''modules'', ''nf-core'', ''modules'', ''fastqc'', ''main.nf'']
      = Some (File ''project'')
   \<and> lookup (fsys (snd (check_modules_structure idle_collaborators pipeline_command two_trees_world)))
        [''work'', ''other'', ''modules'', ''nf-core'', ''fastqc'', ''main.nf'']
      = Some (File ''other'')
   \<and> lookup (fsys (snd (check_modules_structure idle_collaborators pipeline_command two_trees_world)))
        [''work'', ''pipe'', ''modules'', ''nf-core'', ''fastqc'', ''main.nf'']
      = None
   \<and> lookup (fsys (snd (check_modules_structure idle_collaborators pipeline_command two_trees_world)))
        [''work'', ''pipe'', ''modules'', ''nf-core'', ''modules'', ''fastqc'', ''main.nf'']
      = None
   \<and> cwd outside_world \<noteq> os_resolve (cwd outside_world) (dir pipeline_command)
   \<and> check_modules_structure idle_collaborators pipeline_command outside_world
      = (Inl (OSError ENOENT),
         after_refresh pipeline_command outside_world (fsys outside_world))
   \<and> cwd legacy_world = os_resolve (cwd legacy_world) (dir pipeline_command)
   \<and> prefix (modules_root_of pipeline_command legacy_world)
        [''work'', ''pipe'', ''modules'', ''nf-core'', ''fastqc'']
   \<and> lookup (fsys (snd (check_modules_structure idle_collaborators pipeline_command legacy_world)))
        [''work'', ''pipe'', ''modules'', ''nf-core'', ''fastqc'', ''main.nf'']
      = Some (File [])"
  (is "?a1 \<and> ?a2 \<and> ?a3 \<and> ?a4 \<and> ?a5 \<and> ?a5' \<and> ?a6 \<and> ?a7 \<and> ?a8 \<and> ?b1 \<and> ?b2 \<and> ?c1 \<and> ?c2 \<and> ?c3")
proof -
  let ?m = "[''nf-core'', ''modules'', ''fastqc'']"
  let ?rp = "repo_path (modules_repo pipeline_command)"
  have p: "repo_type pipeline_command = Some ''pipeline''" by code_simp
  have idle: "\<And>t. setup_local_repo_impl idle_collaborators
                 (remote_url (modules_repo pipeline_command))
                 (tracked_branch (modules_repo pipeline_command))
                 (hide_progress pipeline_command) t = Inr t"
    by (simp add: idle_collaborators_def)
  have none: "\<And>w4. move_modules ?rp [] w4 = (Inr (), w4)" by simp
  have fr: "\<And>w t. fsys (after_refresh pipeline_command w t) = t"
    by (simp add: after_refresh_def emit_def)

  let ?srcA = "[''work'', ''other'', ''modules'', ''nf-core'', ''modules'', ''fastqc'']"
  let ?dstA = "[''work'', ''other'', ''modules'', ''nf-core'', ''fastqc'']"
  have a1: ?a1 by code_simp
  have a2: ?a2 by code_simp
  have a3: ?a3 by code_simp
  have a4: ?a4 by code_simp
  have a6: ?a6 by code_simp
  have a7: ?a7 by code_simp
  have a8: ?a8 by code_simp
  have sA: "?srcA = cwd two_trees_world @ [''modules''] @ ?m" by code_simp
  have dA: "?dstA = os_resolve (cwd two_trees_world @ [''modules'']) ?rp @ drop 2 ?m"
    by code_simp
  have "\<not> is_dir (fsys two_trees_world) ?dstA" by code_simp
  then have tA: "?dstA = (if is_dir (fsys (after_refresh pipeline_command two_trees_world
                                             (fsys two_trees_world))) ?dstA
                          then ?dstA @ [last ?srcA] else ?dstA)"
    by (simp add: fr)
  have fA: "find_wrong_location (modules_root_of pipeline_command two_trees_world)
        (os_walk (fsys two_trees_world) (modules_root_of pipeline_command two_trees_world)) []
      = Inr ([] @ ?m # [])" using a2 by simp
  note A = moves_resolved_against_cwd [OF p fA idle a3 none sA dA tA]
  have mA: "move_at ?srcA ?dstA (fsys two_trees_world)
            = Inr (projr (move_at ?srcA ?dstA (fsys two_trees_world)))"
    using a4 by (cases "move_at ?srcA ?dstA (fsys two_trees_world)") simp_all
  have neA: "?dstA \<noteq> ?srcA" by simp
  let ?movedA = "projr (move_at ?srcA ?dstA (fsys two_trees_world))"
  let ?kept = "[''work'', ''pipe'', ''modules'', ''nf-core'', ''modules'', ''fastqc'', ''main.nf'']"
  have moveA: "(\<forall>r. lookup ?movedA (?dstA @ r) = lookup (fsys two_trees_world) (?srcA @ r)
                    \<and> lookup ?movedA (?srcA @ r) = None)
               \<and> (\<forall>p. \<not> prefix ?srcA p \<and> \<not> prefix ?dstA p
                         \<and> lookup (fsys two_trees_world) p \<noteq> None
                       \<longrightarrow> lookup ?movedA p = lookup (fsys two_trees_world) p)"
    using A [THEN conjunct2, THEN conjunct2, THEN conjunct2, THEN conjunct2, THEN conjunct2,
             THEN conjunct1] neA
    unfolding fr by (subst (asm) mA) simp
  have a5: ?a5 using moveA by blast
  have kept: "lookup (fsys two_trees_world) ?kept = Some (File ''project'')" by code_simp
  have "\<not> prefix ?srcA ?kept \<and> \<not> prefix ?dstA ?kept
        \<and> lookup (fsys two_trees_world) ?kept \<noteq> None"
    using kept by simp
  then have "lookup ?movedA ?kept = lookup (fsys two_trees_world) ?kept"
    using moveA by blast
  then have a5': ?a5' using kept by simp

  let ?srcB = "[''work'', ''modules'', ''nf-core'', ''modules'', ''fastqc'']"
  let ?dstB = "[''work'', ''modules'', ''nf-core'', ''fastqc'']"
  have b1: ?b1 by code_simp
  have fB: "find_wrong_location (modules_root_of pipeline_command outside_world)
        (os_walk (fsys outside_world) (modules_root_of pipeline_command outside_world)) []
      = Inr ([] @ ?m # [])" by code_simp
  have b3: "tidy (fsys outside_world)" by code_simp
  have sB: "?srcB = cwd outside_world @ [''modules''] @ ?m" by code_simp
  have dB: "?dstB = os_resolve (cwd outside_world @ [''modules'']) ?rp @ drop 2 ?m"
    by code_simp
  have "\<not> is_dir (fsys outside_world) ?dstB" by code_simp
  then have tB: "?dstB = (if is_dir (fsys (after_refresh pipeline_command outside_world
                                             (fsys outside_world))) ?dstB
                          then ?dstB @ [last ?srcB] else ?dstB)"
    by (simp add: fr)
  have "lookup (fsys outside_world) ?srcB = None" by code_simp
  then have missing: "lookup (fsys (after_refresh pipeline_command outside_world
                                      (fsys outside_world))) ?srcB = None"
    by (simp add: fr)
  have "\<not> is_dir (fsys outside_world) ?dstB
        \<and> missing_errno (fsys outside_world) ?srcB = ENOENT" by code_simp
  then have errB: "(if is_dir (fsys (after_refresh pipeline_command outside_world
                                      (fsys outside_world))) ?dstB
                       \<and> lookup (fsys (after_refresh pipeline_command outside_world
                                      (fsys outside_world))) ?dstB \<noteq> None
                    then ShutilError
                    else OSError (missing_errno (fsys (after_refresh pipeline_command
                                                       outside_world (fsys outside_world)))
                                    ?srcB)) = OSError ENOENT"
    by (simp add: fr)
  note B = moves_resolved_against_cwd [OF p fB idle b3 none sB dB tB]
  have b2: ?b2
    using B [THEN conjunct2, THEN conjunct2, THEN conjunct2, THEN conjunct2, THEN conjunct2,
             THEN conjunct2, THEN conjunct1] missing unfolding errB by blast

  let ?srcC = "[''work'', ''pipe'', ''modules'', ''nf-core'', ''modules'', ''fastqc'']"
  let ?dstC = "[''work'', ''pipe'', ''modules'', ''nf-core'', ''fastqc'']"
  have c1: ?c1 by code_simp
  have c3: ?c3 by code_simp
  have fC: "find_wrong_location (modules_root_of pipeline_command legacy_world)
        (os_walk (fsys legacy_world) (modules_root_of pipeline_command legacy_world)) []
      = Inr ([] @ ?m # [])" by code_simp
  have c4: "tidy (fsys legacy_world)" by code_simp
  have sC: "?srcC = cwd legacy_world @ [''modules''] @ ?m" by code_simp
  have dC: "?dstC = os_resolve (cwd legacy_world @ [''modules'']) ?rp @ drop 2 ?m"
    by code_simp
  have "\<not> is_dir (fsys legacy_world) ?dstC" by code_simp
  then have tC: "?dstC = (if is_dir (fsys (after_refresh pipeline_command legacy_world
                                             (fsys legacy_world))) ?dstC
                          then ?dstC @ [last ?srcC] else ?dstC)"
    by (simp add: fr)
  have rel: "\<not> startswith ?rp ''/'' \<and> ''..'' \<notin> set (split_chr CHR ''/'' ?rp)" by code_simp
  note C = moves_resolved_against_cwd [OF p fC idle c4 none sC dC tC]
  have c2: ?c2
    using C [THEN conjunct2, THEN conjunct2, THEN conjunct2, THEN conjunct2, THEN conjunct1]
      c1 rel by blast

  show ?thesis using a1 a2 a3 a4 a5 a5' a6 a7 a8 b1 b2 c1 c2 c3 by blast
qed


section \<open>Properties of the construction of \<open>ModulesRepo\<close>\<close>

lemma split_chr_absent: "sep \<notin> set s \<Longrightarrow> split_chr sep s = [s]"
  by (induction s) auto

lemma no_at_sign_index_error:
  "CHR ''@'' \<notin> set u \<Longrightarrow> init nfcore_dir (Some u) branch_arg w = (Inl IndexError, w)"
  by (simp add: init_def parse_fullname_def split_chr_absent)

text \<open>
  C1: the code does not do what the claim says. \<open>__init__\<close> takes \<open>remote_url.split("@")[1]\<close>,
  so the SSH-style URL of the default repository resolves to \<open>nf-core/modules\<close>, while its
  HTTPS form, which has no \<open>@\<close>, ends the constructor in \<open>IndexError\<close>, for every branch and in
  every world, before any identity is built. An HTTPS URL with a user part keeps its host in
  the path and ends, with a branch given, in the \<open>ValueError\<close> of the unpacking.
\<close>

theorem https_remote_is_rejected:
  "parse_fullname (Some ssh_default_url) = Inr ''nf-core/modules''
   \<and> parse_fullname (Some https_default_url) = Inl IndexError
   \<and> init nfcore_dir (Some https_default_url) branch_arg w = (Inl IndexError, w)
   \<and> init nfcore_dir (Some ''https://user@github.com/nf-core/modules.git'') (Some b) w
       = (Inl ValueError, w)"
proof -
  have a: "parse_fullname (Some ssh_default_url) = Inr ''nf-core/modules''" by code_simp
  have b: "parse_fullname (Some https_default_url) = Inl IndexError" by code_simp
  have c: "parse_fullname (Some ''https://user@github.com/nf-core/modules.git'')
             = Inr ''github.com/nf-core/modules''" by code_simp
  have d: "split_chr CHR ''/'' ''github.com/nf-core/modules''
             = [''github.com'', ''nf-core'', ''modules'']" by code_simp
  have e: "init nfcore_dir (Some ''https://user@github.com/nf-core/modules.git'') (Some b) w
       = (Inl ValueError, w)"
    unfolding init_def c by (simp add: choose_branch_def new_object_def d)
  show ?thesis using a b e by (simp add: init_def)
qed

lemma get_default_branch_returns_None:
  "case get_default_branch self w of
     Inl e \<Rightarrow> True
   | Inr (returned, self') \<Rightarrow> returned = None"
  by (auto simp: get_default_branch_def split: option.splits list.splits sum.splits)

text \<open>
  C3: the code does not do what the claim says. Without a branch and for a repository other
  than \<open>nf-core/modules\<close>, \<open>__init__\<close> calls \<open>get_default_branch\<close> before \<open>self.repo\<close> is assigned
  and ends in \<open>AttributeError\<close>. Where \<open>get_default_branch\<close> does return, it returns \<open>None\<close>, and
  the assignment \<open>self.branch = self.get_default_branch()\<close> leaves the branch \<open>None\<close>.
\<close>

theorem default_branch_lookup_fails:
  "init nfcore_dir (Some ssh_other_url) None w = (Inl AttributeError, w)
   \<and> (case get_default_branch self w of
         Inl e \<Rightarrow> True
       | Inr (returned, self') \<Rightarrow> returned = None)
   \<and> (case choose_branch (self\<lparr>branch := None\<rparr>) w of
         Inl e \<Rightarrow> True
       | Inr s \<Rightarrow> fullname self = ''nf-core/modules'' \<or> branch s = None)"
proof -
  have p: "parse_fullname (Some ssh_other_url) = Inr ''someone/mods''" by code_simp
  have a: "init nfcore_dir (Some ssh_other_url) None w = (Inl AttributeError, w)"
    using p by (simp add: init_def choose_branch_def new_object_def get_default_branch_def)
  have b: "case get_default_branch self w of
         Inl e \<Rightarrow> True
       | Inr (returned, self') \<Rightarrow> returned = None"
    by (rule get_default_branch_returns_None)
  have c: "case choose_branch (self\<lparr>branch := None\<rparr>) w of
         Inl e \<Rightarrow> True
       | Inr s \<Rightarrow> fullname self = ''nf-core/modules'' \<or> branch s = None"
    using get_default_branch_returns_None [of "self\<lparr>branch := None\<rparr>" w]
    by (auto simp: choose_branch_def split: sum.splits)
  show ?thesis using a b c by blast
qed

text \<open>
  C4: the code does not do what the claim says. For the default repository without a branch
  the branch is set to \<open>master\<close> before the guard of line 53 is read, so the guard holds and
  \<open>verify_branch\<close> runs: a default repository whose \<open>master\<close> has no \<open>modules\<close> directory is
  refused with the error of the layout check.
\<close>

theorem default_repository_is_verified:
  "fst (init nfcore_home (Some ssh_default_url) None old_layout_world)
     = Inl (LookupError (No_modules_directory ''nf-core/modules'' (Some ''master'') True))
   \<and> (case choose_branch (new_object ''nf-core/modules'' None) w of
         Inl e \<Rightarrow> False
       | Inr s \<Rightarrow> branch s = Some ''master'' \<and> wants_verification s)"
proof -
  have a: "fst (init nfcore_home (Some ssh_default_url) None old_layout_world)
     = Inl (LookupError (No_modules_directory ''nf-core/modules'' (Some ''master'') True))"
    by code_simp
  have b: "case choose_branch (new_object ''nf-core/modules'' None) w of
         Inl e \<Rightarrow> False
       | Inr s \<Rightarrow> branch s = Some ''master'' \<and> wants_verification s"
    by (simp add: choose_branch_def new_object_def wants_verification_def truthy_def)
  show ?thesis using a b by blast
qed

text \<open>
  C5: the code does not do what the claim says. With a cache in place and an origin that
  cannot be reached, \<open>setup_local_repo\<close> ends in the \<open>GitCommandError\<close> of the pull itself and
  leaves the world, the cache included, as it was; the failure of a first clone, next to
  it, is wrapped in a \<open>LookupError\<close>.
\<close>

theorem pull_failure_is_not_wrapped:
  "setup_local_repo nfcore_home (new_object ''nf-core/modules'' (Some ''master''))
      ''nf-core'' ''modules'' (Some ssh_default_url) stale_world
     = (Inl GitCommandError, stale_world)
   \<and> fst (setup_local_repo nfcore_home (new_object ''nf-core/modules'' (Some ''master''))
            ''nf-core'' ''modules'' (Some ssh_default_url) offline_world)
       = Inl (LookupError (Failed_to_clone ssh_default_url))"
  by code_simp

end
